theory Spec2Isabelle
  imports Complex_Main
begin

section \<open>The alert service (src/services/alert\_service.py)\<close>

text \<open>
  Python floats (confidence, thresholds, \<open>time.time()\<close> readings) are modelled as
  real numbers: no rounding and no NaN. Python's unbounded integers are \<open>int\<close>.
\<close>

subsection \<open>Data model\<close>

datatype AlertType = VISUAL | AUDIO | HAPTIC | NOTIFICATION | EMAIL | SMS

fun alert_type_value :: "AlertType \<Rightarrow> string" where
  "alert_type_value VISUAL = ''visual''"
| "alert_type_value AUDIO = ''audio''"
| "alert_type_value HAPTIC = ''haptic''"
| "alert_type_value NOTIFICATION = ''notification''"
| "alert_type_value EMAIL = ''email''"
| "alert_type_value SMS = ''sms''"

datatype AlertLevel = LOW | MEDIUM | HIGH | CRITICAL

fun alert_level_value :: "AlertLevel \<Rightarrow> string" where
  "alert_level_value LOW = ''low''"
| "alert_level_value MEDIUM = ''medium''"
| "alert_level_value HIGH = ''high''"
| "alert_level_value CRITICAL = ''critical''"

text \<open>The dataclass \<open>AlertConfig\<close>; its field \<open>alert_type\<close> is named
  \<open>config_alert_type\<close> here, since \<open>AlertEvent\<close> has a field of the same name.\<close>

record AlertConfig =
  config_alert_type :: AlertType
  enabled :: bool
  threshold :: real
  cooldown :: int
  max_frequency :: int
  custom_message :: "string option"

record AlertEvent =
  alert_id :: string
  user_id :: string
  alert_type :: AlertType
  level :: AlertLevel
  message :: string
  timestamp :: real
  confidence :: real
  metadata :: "(string \<times> string) list"

text \<open>
  A registered callback is a function of the event. All the service observes of a call
  is whether it returns or raises an \<open>Exception\<close>.
\<close>

datatype callback_outcome = Returns | Raises

type_synonym callback = "AlertEvent \<Rightarrow> callback_outcome"

record AlertService =
  alert_configs :: "string \<rightharpoonup> AlertConfig"
  alert_history :: "AlertEvent list"
  alert_callbacks :: "AlertType \<rightharpoonup> callback list"
  rate_limits :: "string \<rightharpoonup> real list"
  cooldowns :: "string \<rightharpoonup> real"

text \<open>
  What a call does outside the service object: the records it hands to the logger, and
  the callbacks it calls (by position in the channel's callback list).
\<close>

datatype effect =
  Log_warning | Log_debug | Log_error | Log_info | Called nat

subsection \<open>Construction and configuration\<close>

definition default_configs :: "(AlertType \<times> AlertConfig) list" where
  "default_configs =
    [(VISUAL, \<lparr>config_alert_type = VISUAL, enabled = True, threshold = 0.7,
               cooldown = 3, max_frequency = 20, custom_message = None\<rparr>),
     (AUDIO, \<lparr>config_alert_type = AUDIO, enabled = True, threshold = 0.8,
              cooldown = 5, max_frequency = 10, custom_message = None\<rparr>),
     (HAPTIC, \<lparr>config_alert_type = HAPTIC, enabled = True, threshold = 0.6,
               cooldown = 2, max_frequency = 30, custom_message = None\<rparr>),
     (NOTIFICATION, \<lparr>config_alert_type = NOTIFICATION, enabled = True, threshold = 0.7,
                     cooldown = 10, max_frequency = 5, custom_message = None\<rparr>)]"

fun setup_default_configs ::
  "(AlertType \<times> AlertConfig) list \<Rightarrow> AlertService \<Rightarrow> AlertService" where
  "setup_default_configs [] s = s"
| "setup_default_configs ((atype, config) # rest) s =
     setup_default_configs rest
       (s\<lparr>alert_configs := (alert_configs s)(alert_type_value atype \<mapsto> config),
          alert_callbacks := (alert_callbacks s)(atype \<mapsto> [])\<rparr>)"

definition init :: AlertService where
  "init = setup_default_configs default_configs
     \<lparr>alert_configs = Map.empty, alert_history = [], alert_callbacks = Map.empty,
      rate_limits = Map.empty, cooldowns = Map.empty\<rparr>"

definition register_callback :: "AlertService \<Rightarrow> AlertType \<Rightarrow> callback \<Rightarrow> AlertService" where
  "register_callback s atype callback =
     (let cbs = (case alert_callbacks s atype of None \<Rightarrow> [] | Some l \<Rightarrow> l)
      in s\<lparr>alert_callbacks := (alert_callbacks s)(atype \<mapsto> cbs @ [callback])\<rparr>)"

definition update_config :: "AlertService \<Rightarrow> AlertType \<Rightarrow> AlertConfig \<Rightarrow> AlertService" where
  "update_config s atype config =
     s\<lparr>alert_configs := (alert_configs s)(alert_type_value atype \<mapsto> config)\<rparr>"

subsection \<open>Admission\<close>

definition rate_key :: "string \<Rightarrow> AlertType \<Rightarrow> string" where
  "rate_key uid atype = uid @ ''_'' @ alert_type_value atype"

text \<open>\<open>_can_send_alert\<close>; \<open>current_time\<close> is the value its \<open>time.time()\<close> reads.
  The pruned list is stored before the rate check, also when the check rejects.\<close>

definition can_send_alert ::
  "AlertService \<Rightarrow> string \<Rightarrow> AlertType \<Rightarrow> real \<Rightarrow> bool \<times> AlertService" where
  "can_send_alert s uid atype current_time =
     (case alert_configs s (alert_type_value atype) of
        None \<Rightarrow> (False, s)
      | Some config \<Rightarrow>
          if \<not> enabled config then (False, s)
          else if (case cooldowns s (rate_key uid atype) of
                     None \<Rightarrow> False
                   | Some sent \<Rightarrow> current_time - sent < real_of_int (cooldown config))
          then (False, s)
          else
            let old = (case rate_limits s (rate_key uid atype) of
                         None \<Rightarrow> [] | Some l \<Rightarrow> l);
                minute_ago = current_time - 60;
                kept = filter (\<lambda>ts. ts > minute_ago) old;
                s' = s\<lparr>rate_limits := (rate_limits s)(rate_key uid atype \<mapsto> kept)\<rparr>
            in if int (length kept) \<ge> max_frequency config then (False, s')
               else (True, s'))"

definition update_rate_limits ::
  "AlertService \<Rightarrow> string \<Rightarrow> AlertType \<Rightarrow> real \<Rightarrow> AlertService" where
  "update_rate_limits s uid atype current_time =
     (let old = (case rate_limits s (rate_key uid atype) of
                   None \<Rightarrow> [] | Some l \<Rightarrow> l)
      in s\<lparr>rate_limits := (rate_limits s)(rate_key uid atype \<mapsto> old @ [current_time]),
           cooldowns := (cooldowns s)(rate_key uid atype \<mapsto> current_time)\<rparr>)"

text \<open>
  An admitted \<open>send_alert\<close> reads the clock four times: in \<open>_can_send_alert\<close>, for the
  alert id, for the event's timestamp and in \<open>_update_rate_limits\<close>.
\<close>

record clock =
  can_send_time :: real
  alert_id_time :: real
  event_time :: real
  update_time :: real

definition at_time :: "real \<Rightarrow> clock" where
  "at_time t = \<lparr>can_send_time = t, alert_id_time = t, event_time = t, update_time = t\<rparr>"

definition digit :: "nat \<Rightarrow> char" where
  "digit d = ''0123456789'' ! d"

function show_nat :: "nat \<Rightarrow> string" where
  "show_nat n = (if n < 10 then [digit n] else show_nat (n div 10) @ [digit (n mod 10)])"
  by pat_completeness auto
termination
  by (relation "measure id") auto

declare show_nat.simps [simp del]

definition show_int :: "int \<Rightarrow> string" where
  "show_int i = (if i < 0 then CHR ''-'' # show_nat (nat (- i)) else show_nat (nat i))"

text \<open>Python's \<open>int(x)\<close> on a float truncates towards zero.\<close>

definition py_int :: "real \<Rightarrow> int" where
  "py_int x = (if x < 0 then \<lceil>x\<rceil> else \<lfloor>x\<rfloor>)"

text \<open>The callback loop: every callback is called; one that raises is logged.\<close>

fun execute_callbacks :: "callback list \<Rightarrow> nat \<Rightarrow> AlertEvent \<Rightarrow> effect list" where
  "execute_callbacks [] i ev = []"
| "execute_callbacks (cb # cbs) i ev =
     Called i # (case cb ev of Returns \<Rightarrow> [] | Raises \<Rightarrow> [Log_error])
       @ execute_callbacks cbs (Suc i) ev"

definition default_message :: string where
  "default_message = ''Screen peeking detected!''"

definition send_alert ::
  "AlertService \<Rightarrow> string \<Rightarrow> AlertType \<Rightarrow> AlertLevel \<Rightarrow> string \<Rightarrow> real \<Rightarrow>
   (string \<times> string) list option \<Rightarrow> clock \<Rightarrow> bool \<times> AlertService \<times> effect list" where
  "send_alert s uid atype lvl msg conf meta clk =
     (case alert_configs s (alert_type_value atype) of
        None \<Rightarrow> (False, s, [Log_warning])
      | Some config \<Rightarrow>
          if conf < threshold config then (False, s, [Log_debug])
          else
            (case can_send_alert s uid atype (can_send_time clk) of
               (False, s1) \<Rightarrow> (False, s1, [Log_debug])
             | (True, s1) \<Rightarrow>
                 let alert_event =
                       \<lparr>alert_id = uid @ ''_'' @ alert_type_value atype @ ''_''
                                     @ show_int (py_int (alert_id_time clk * 1000)),
                        user_id = uid,
                        alert_type = atype,
                        level = lvl,
                        message = (if msg \<noteq> [] then msg
                                   else (case custom_message config of
                                           Some m \<Rightarrow> if m \<noteq> [] then m else default_message
                                         | None \<Rightarrow> default_message)),
                        timestamp = event_time clk,
                        confidence = conf,
                        metadata = (case meta of None \<Rightarrow> [] | Some m \<Rightarrow> m)\<rparr>;
                     s2 = s1\<lparr>alert_history := alert_history s1 @ [alert_event]\<rparr>;
                     s3 = update_rate_limits s2 uid atype (update_time clk);
                     callbacks = (case alert_callbacks s3 atype of None \<Rightarrow> [] | Some l \<Rightarrow> l)
                 in (True, s3, execute_callbacks callbacks 0 alert_event @ [Log_info])))"

text \<open>\<open>send_multiple_alerts\<close> awaits the calls one after the other, in list order; a
  later entry for the same alert type overwrites the earlier result. \<open>clks i\<close> are the
  clock readings of the call at position \<open>i\<close>, and \<open>results\<close> starts empty. No call raises, so the \<open>except\<close>
  branch that would record \<open>False\<close> is never taken.\<close>

fun send_multiple_alerts ::
  "AlertService \<Rightarrow> string \<Rightarrow> AlertType list \<Rightarrow> AlertLevel \<Rightarrow> string \<Rightarrow> real \<Rightarrow>
   (string \<times> string) list option \<Rightarrow> (nat \<Rightarrow> clock) \<Rightarrow> (AlertType \<rightharpoonup> bool) \<Rightarrow>
   (AlertType \<rightharpoonup> bool) \<times> AlertService \<times> effect list" where
  "send_multiple_alerts s uid [] lvl msg conf meta clks results = (results, s, [])"
| "send_multiple_alerts s uid (atype # rest) lvl msg conf meta clks results =
     (case send_alert s uid atype lvl msg conf meta (clks 0) of
        (success, s1, effs) \<Rightarrow>
          (case send_multiple_alerts s1 uid rest lvl msg conf meta (\<lambda>i. clks (Suc i))
                  (results(atype \<mapsto> success)) of
             (results', s2, effs') \<Rightarrow> (results', s2, effs @ effs')))"

subsection \<open>History and statistics\<close>

text \<open>The slice \<open>xs[-limit:]\<close> of Python, for every integer \<open>limit\<close>.\<close>

definition last_slice :: "'a list \<Rightarrow> int \<Rightarrow> 'a list" where
  "last_slice xs limit =
     (if limit > 0 then drop (length xs - nat limit) xs else drop (nat (- limit)) xs)"

text \<open>An optional \<open>user_id\<close> counts as given when it is neither \<open>None\<close> nor the empty
  string (\<open>if user_id:\<close>).\<close>

definition given :: "string option \<Rightarrow> string option" where
  "given uid = (case uid of None \<Rightarrow> None | Some u \<Rightarrow> if u = [] then None else Some u)"

definition get_alert_history :: "AlertService \<Rightarrow> string option \<Rightarrow> int \<Rightarrow> AlertEvent list" where
  "get_alert_history s uid limit =
     (case given uid of
        Some u \<Rightarrow> last_slice (filter (\<lambda>alert. user_id alert = u) (alert_history s)) limit
      | None \<Rightarrow> last_slice (alert_history s) limit)"

record AlertStats =
  total_alerts :: nat
  alerts_by_type :: "string \<rightharpoonup> nat"
  alerts_by_level :: "string \<rightharpoonup> nat"
  average_confidence :: real
  recent_alerts :: nat

definition count_up :: "(string \<rightharpoonup> nat) \<Rightarrow> string \<Rightarrow> (string \<rightharpoonup> nat)" where
  "count_up d k = d(k \<mapsto> (case d k of None \<Rightarrow> 0 | Some n \<Rightarrow> n) + 1)"

fun stats_loop ::
  "AlertEvent list \<Rightarrow> real \<Rightarrow> (string \<rightharpoonup> nat) \<times> (string \<rightharpoonup> nat) \<times> real \<times> nat \<Rightarrow>
   (string \<rightharpoonup> nat) \<times> (string \<rightharpoonup> nat) \<times> real \<times> nat" where
  "stats_loop [] one_hour_ago acc = acc"
| "stats_loop (alert # rest) one_hour_ago (by_type, by_level, total_confidence, recent) =
     stats_loop rest one_hour_ago
       (count_up by_type (alert_type_value (alert_type alert)),
        count_up by_level (alert_level_value (level alert)),
        total_confidence + confidence alert,
        (if timestamp alert > one_hour_ago then recent + 1 else recent))"

text \<open>\<open>get_alert_stats\<close> calls \<open>get_alert_history(user_id)\<close>, so with the default
  \<open>limit=100\<close>; \<open>current_time\<close> is the value its \<open>time.time()\<close> reads.\<close>

definition get_alert_stats :: "AlertService \<Rightarrow> string option \<Rightarrow> real \<Rightarrow> AlertStats" where
  "get_alert_stats s uid current_time =
     (let alerts = get_alert_history s uid 100
      in if alerts = [] then
           \<lparr>total_alerts = 0, alerts_by_type = Map.empty, alerts_by_level = Map.empty,
            average_confidence = 0, recent_alerts = 0\<rparr>
         else
           (case stats_loop alerts (current_time - 3600) (Map.empty, Map.empty, 0, 0) of
              (by_type, by_level, total_confidence, recent) \<Rightarrow>
                \<lparr>total_alerts = length alerts,
                 alerts_by_type = by_type,
                 alerts_by_level = by_level,
                 average_confidence =
                   (if length alerts > 0 then total_confidence / real (length alerts) else 0),
                 recent_alerts = recent\<rparr>))"

definition clear_history :: "AlertService \<Rightarrow> string option \<Rightarrow> AlertService" where
  "clear_history s uid =
     (case given uid of
        Some u \<Rightarrow> s\<lparr>alert_history := filter (\<lambda>alert. user_id alert \<noteq> u) (alert_history s)\<rparr>
      | None \<Rightarrow> s\<lparr>alert_history := []\<rparr>)"

subsection \<open>Sequences of calls on one service\<close>

datatype call =
  Send string AlertType AlertLevel string real "(string \<times> string) list option" clock
| Configure AlertType AlertConfig
| Register AlertType callback
| Clear "string option"

fun do_call :: "AlertService \<Rightarrow> call \<Rightarrow> AlertService" where
  "do_call s (Send uid atype lvl msg conf meta clk) =
     fst (snd (send_alert s uid atype lvl msg conf meta clk))"
| "do_call s (Configure atype config) = update_config s atype config"
| "do_call s (Register atype cb) = register_callback s atype cb"
| "do_call s (Clear uid) = clear_history s uid"

fun run :: "AlertService \<Rightarrow> call list \<Rightarrow> AlertService" where
  "run s [] = s"
| "run s (c # cs) = run (do_call s c) cs"

text \<open>
  The clock does not run backwards: every reading of a call is at least \<open>T\<close>, the
  last reading before it, and the readings within one call are in order.
\<close>

definition clock_ordered :: "real \<Rightarrow> clock \<Rightarrow> bool" where
  "clock_ordered T clk \<longleftrightarrow>
     T \<le> can_send_time clk \<and> can_send_time clk \<le> alert_id_time clk \<and>
     alert_id_time clk \<le> event_time clk \<and> event_time clk \<le> update_time clk"

fun clock_monotone :: "real \<Rightarrow> call list \<Rightarrow> bool" where
  "clock_monotone T [] = True"
| "clock_monotone T (Send uid atype lvl msg conf meta clk # cs) =
     (clock_ordered T clk \<and> clock_monotone (update_time clk) cs)"
| "clock_monotone T (c # cs) = clock_monotone T cs"

text \<open>No call of the sequence replaces the configuration of channel \<open>atype\<close>.\<close>

fun keeps_config :: "AlertType \<Rightarrow> call list \<Rightarrow> bool" where
  "keeps_config atype [] = True"
| "keeps_config atype (Configure atype' config # cs) =
     (atype' \<noteq> atype \<and> keeps_config atype cs)"
| "keeps_config atype (c # cs) = keeps_config atype cs"

text \<open>The events of the history that were dispatched to one user on one channel.\<close>

definition dispatched :: "string \<Rightarrow> AlertType \<Rightarrow> AlertEvent list \<Rightarrow> AlertEvent list" where
  "dispatched uid atype h = filter (\<lambda>e. user_id e = uid \<and> alert_type e = atype) h"

text \<open>A service on which nothing has been dispatched yet, whatever its configuration.\<close>

definition fresh :: "AlertService \<Rightarrow> bool" where
  "fresh s \<longleftrightarrow> alert_history s = [] \<and> rate_limits s = Map.empty \<and> cooldowns s = Map.empty"

subsection \<open>Invariants of admission\<close>

text \<open>The timestamps kept under a key of \<open>rate_limits\<close> (none when the key is absent).\<close>

definition rate_list :: "AlertService \<Rightarrow> string \<Rightarrow> real list" where
  "rate_list s k = (case rate_limits s k of None \<Rightarrow> [] | Some l \<Rightarrow> l)"

text \<open>
  What the cooldown entry and the rate list of one key record about the events dispatched
  under it, when \<open>T\<close> is the latest clock reading: the cooldown entry is not later
  than \<open>T\<close> and not earlier than any event, and for every instant \<open>\<tau>\<close> of the
  last minute the rate list holds at least as many timestamps after \<open>\<tau>\<close> as there are
  events after \<open>\<tau>\<close>.
\<close>

definition tracked_view :: "real \<Rightarrow> AlertEvent list \<Rightarrow> real option \<Rightarrow> real list \<Rightarrow> bool" where
  "tracked_view T h cd rl \<longleftrightarrow>
     (\<forall>u. cd = Some u \<longrightarrow> u \<le> T) \<and>
     (\<forall>e\<in>set h. \<exists>u. cd = Some u \<and> timestamp e \<le> u) \<and>
     (\<forall>\<tau>\<ge>T - 60. length (filter (\<lambda>e. \<tau> < timestamp e) h) \<le> length (filter (\<lambda>r. \<tau> < r) rl))"

text \<open>Successive events are at least \<open>gap\<close> apart.\<close>

definition spaced :: "real \<Rightarrow> AlertEvent list \<Rightarrow> bool" where
  "spaced gap h = sorted_wrt (\<lambda>a b. gap \<le> timestamp b - timestamp a) h"

text \<open>No window \<open>(a, a + 60]\<close> holds more than \<open>m\<close> events.\<close>

definition within_rate :: "int \<Rightarrow> AlertEvent list \<Rightarrow> bool" where
  "within_rate m h \<longleftrightarrow>
     (\<forall>a. int (length (filter (\<lambda>e. a < timestamp e \<and> timestamp e \<le> a + 60) h)) \<le> m)"

definition tracked :: "real \<Rightarrow> AlertService \<Rightarrow> string \<Rightarrow> AlertType \<Rightarrow> bool" where
  "tracked T s uid atype \<longleftrightarrow>
     tracked_view T (dispatched uid atype (alert_history s))
       (cooldowns s (rate_key uid atype)) (rate_list s (rate_key uid atype))"

text \<open>The invariant of a user and channel under a fixed configuration of the channel
  (a negative \<open>max_frequency\<close> admits nothing, and is below every count).\<close>

definition admission_ok :: "real \<Rightarrow> AlertService \<Rightarrow> string \<Rightarrow> AlertType \<Rightarrow> AlertConfig \<Rightarrow> bool" where
  "admission_ok T s uid atype config \<longleftrightarrow>
     alert_configs s (alert_type_value atype) = Some config \<and>
     tracked T s uid atype \<and>
     spaced (real_of_int (cooldown config)) (dispatched uid atype (alert_history s)) \<and>
     (0 \<le> max_frequency config \<longrightarrow>
        within_rate (max_frequency config) (dispatched uid atype (alert_history s)))"

text \<open>The latest clock reading after a call.\<close>

fun after :: "real \<Rightarrow> call \<Rightarrow> real" where
  "after T (Send uid atype lvl msg conf meta clk) = update_time clk"
| "after T c = T"

section \<open>The gaze classifier (src/models/screen\_peek\_detector.py)\<close>

text \<open>
  Face detection and the face mesh are external (MediaPipe). A frame is modelled by what
  they yield on it: the detected faces, each with its detection confidence and with the
  outcome of the \<open>try\<close> block of \<open>estimate_gaze_direction\<close>: a head pose, or no
  estimate (empty face region, no landmarks, or an exception, which is logged).
\<close>

datatype gaze_outcome = Head_pose real real | No_estimate

record face =
  face_confidence :: real
  face_gaze :: gaze_outcome

fun estimate_gaze_direction :: "face \<Rightarrow> real \<times> real" where
  "estimate_gaze_direction f =
     (case face_gaze f of Head_pose pitch yaw \<Rightarrow> (pitch, yaw) | No_estimate \<Rightarrow> (0, 0))"

definition is_looking_at_screen :: "real \<times> real \<Rightarrow> bool" where
  "is_looking_at_screen gaze_angles =
     (case gaze_angles of (pitch, yaw) \<Rightarrow>
        let pitch_threshold = 15; yaw_threshold = 20;
            is_pitch_ok = \<bar>pitch\<bar> < pitch_threshold;
            is_yaw_ok = \<bar>yaw\<bar> < yaw_threshold
        in is_pitch_ok \<and> is_yaw_ok)"

record DetectionResult =
  is_peeking :: bool
  result_confidence :: real
  face_count :: nat
  gaze_angles :: "(real \<times> real) list"
  result_timestamp :: real

text \<open>The loop of \<open>process_frame\<close> over the faces, on
  \<open>(is_peeking, gaze_angles, max_confidence)\<close>.\<close>

fun process_faces ::
  "face list \<Rightarrow> bool \<times> (real \<times> real) list \<times> real \<Rightarrow> bool \<times> (real \<times> real) list \<times> real" where
  "process_faces [] acc = acc"
| "process_faces (f # fs) (peeking, angles, max_confidence) =
     (let gaze = estimate_gaze_direction f
      in if is_looking_at_screen gaze
         then process_faces fs (True, angles @ [gaze], max max_confidence (face_confidence f))
         else process_faces fs (peeking, angles @ [gaze], max_confidence))"

definition process_frame :: "face list \<Rightarrow> real \<Rightarrow> DetectionResult" where
  "process_frame faces now =
     (case process_faces faces (False, [], 0) of
        (peeking, angles, max_confidence) \<Rightarrow>
          \<lparr>is_peeking = peeking,
           result_confidence = (if peeking then max_confidence else 0),
           face_count = length faces,
           gaze_angles = angles,
           result_timestamp = now\<rparr>)"

section \<open>Detection sessions (src/api/detection\_routes.py)\<close>

text \<open>
  The connection manager with the asyncio tasks it refers to. A task handle is the
  position of the task in \<open>tasks\<close>; a websocket is a number. \<open>task.cancel()\<close> only
  requests the cancellation: the loop sees \<open>CancelledError\<close> at its next \<open>await\<close>.
\<close>

datatype task_status = Running | Cancel_requested | Finished

record task =
  owner :: string
  status :: task_status

datatype frame = Status_update bool real

record DetectionConnectionManager =
  active_connections :: "string \<rightharpoonup> nat"
  detection_tasks :: "string \<rightharpoonup> nat"
  tasks :: "task list"
  sent_frames :: "(nat \<times> frame) list"
  errors_logged :: nat

definition manager :: DetectionConnectionManager where
  "manager = \<lparr>active_connections = Map.empty, detection_tasks = Map.empty, tasks = [],
              sent_frames = [], errors_logged = 0\<rparr>"

definition cancel :: "task list \<Rightarrow> nat \<Rightarrow> task list" where
  "cancel ts h =
     (if h < length ts \<and> status (ts ! h) = Running
      then ts[h := (ts ! h)\<lparr>status := Cancel_requested\<rparr>] else ts)"

definition connect :: "DetectionConnectionManager \<Rightarrow> nat \<Rightarrow> string \<Rightarrow> DetectionConnectionManager" where
  "connect m websocket uid = m\<lparr>active_connections := (active_connections m)(uid \<mapsto> websocket)\<rparr>"

definition disconnect :: "DetectionConnectionManager \<Rightarrow> string \<Rightarrow> DetectionConnectionManager" where
  "disconnect m uid =
     (let m1 = m\<lparr>active_connections := (active_connections m)(uid := None)\<rparr>
      in case detection_tasks m1 uid of
           None \<Rightarrow> m1
         | Some h \<Rightarrow> m1\<lparr>tasks := cancel (tasks m1) h,
                         detection_tasks := (detection_tasks m1)(uid := None)\<rparr>)"

text \<open>\<open>send_text\<close> either sends or raises an \<open>Exception\<close>, which
  \<open>send_detection_update\<close> catches and logs.\<close>

datatype send_outcome = Sent | Send_failed

definition send_detection_update ::
  "DetectionConnectionManager \<Rightarrow> string \<Rightarrow> frame \<Rightarrow> send_outcome \<Rightarrow> DetectionConnectionManager" where
  "send_detection_update m uid detection_data outcome =
     (case active_connections m uid of
        None \<Rightarrow> m
      | Some websocket \<Rightarrow>
          (case outcome of
             Sent \<Rightarrow> m\<lparr>sent_frames := sent_frames m @ [(websocket, detection_data)]\<rparr>
           | Send_failed \<Rightarrow> m\<lparr>errors_logged := errors_logged m + 1\<rparr>))"

definition start_continuous_detection ::
  "DetectionConnectionManager \<Rightarrow> string \<Rightarrow> DetectionConnectionManager" where
  "start_continuous_detection m uid =
     (case detection_tasks m uid of
        Some h \<Rightarrow> m
      | None \<Rightarrow> m\<lparr>tasks := tasks m @ [\<lparr>owner = uid, status = Running\<rparr>],
                    detection_tasks := (detection_tasks m)(uid \<mapsto> length (tasks m))\<rparr>)"

text \<open>The response of the route \<open>stop_detection\<close>: the dictionary it returns, or the
  \<open>HTTPException\<close> of its \<open>except\<close> branch, which nothing in its \<open>try\<close> block
  can reach here.\<close>

datatype stop_response = Detection_stopped string bool | HTTPException nat

definition stop_detection ::
  "DetectionConnectionManager \<Rightarrow> string \<Rightarrow> stop_response \<times> DetectionConnectionManager" where
  "stop_detection m uid =
     (case detection_tasks m uid of
        None \<Rightarrow> (Detection_stopped uid True, m)
      | Some h \<Rightarrow> (Detection_stopped uid True,
                    m\<lparr>tasks := cancel (tasks m) h,
                      detection_tasks := (detection_tasks m)(uid := None)\<rparr>))"

text \<open>
  One iteration of \<open>detection_loop\<close> in task \<open>h\<close>: the sleep returns and the status
  frame is handed to \<open>send_detection_update\<close>, or an \<open>await\<close> raises
  \<open>CancelledError\<close>, or the body raises another \<open>Exception\<close>. Both handlers leave the
  loop, so the task finishes; the second one logs the error first.
\<close>

datatype iteration = Slept real send_outcome | Cancelled_error | Unexpected_error

definition finish :: "task list \<Rightarrow> nat \<Rightarrow> task list" where
  "finish ts h = ts[h := (ts ! h)\<lparr>status := Finished\<rparr>]"

definition detection_loop ::
  "DetectionConnectionManager \<Rightarrow> nat \<Rightarrow> iteration \<Rightarrow> DetectionConnectionManager" where
  "detection_loop m h it =
     (if h \<ge> length (tasks m) \<or> status (tasks m ! h) = Finished then m
      else if status (tasks m ! h) = Cancel_requested then m\<lparr>tasks := finish (tasks m) h\<rparr>
      else
        (case it of
           Slept now outcome \<Rightarrow>
             send_detection_update m (owner (tasks m ! h)) (Status_update True now) outcome
         | Cancelled_error \<Rightarrow> m\<lparr>tasks := finish (tasks m) h\<rparr>
         | Unexpected_error \<Rightarrow>
             m\<lparr>tasks := finish (tasks m) h, errors_logged := errors_logged m + 1\<rparr>))"

text \<open>The loops of a user that are running and not asked to stop.\<close>

definition active_loops :: "DetectionConnectionManager \<Rightarrow> string \<Rightarrow> nat" where
  "active_loops m uid = length (filter (\<lambda>t. owner t = uid \<and> status t = Running) (tasks m))"

text \<open>The task map is accurate for a user: a registered task is a running loop of that
  user, and it is the only one.\<close>

definition registry_accurate :: "DetectionConnectionManager \<Rightarrow> string \<Rightarrow> bool" where
  "registry_accurate m uid \<longleftrightarrow>
     active_loops m uid = (if detection_tasks m uid = None then 0 else 1)"

text \<open>
  Calls on the manager and iterations of the loops, in the order in which the event loop
  runs them.
\<close>

datatype session_call =
  Connect nat string | Disconnect string | Start string | Stop string | Loop nat iteration

fun do_session_call :: "DetectionConnectionManager \<Rightarrow> session_call \<Rightarrow> DetectionConnectionManager" where
  "do_session_call m (Connect websocket uid) = connect m websocket uid"
| "do_session_call m (Disconnect uid) = disconnect m uid"
| "do_session_call m (Start uid) = start_continuous_detection m uid"
| "do_session_call m (Stop uid) = snd (stop_detection m uid)"
| "do_session_call m (Loop h it) = detection_loop m h it"

fun run_sessions :: "DetectionConnectionManager \<Rightarrow> session_call list \<Rightarrow> DetectionConnectionManager" where
  "run_sessions m [] = m"
| "run_sessions m (c # cs) = run_sessions (do_session_call m c) cs"

text \<open>A call other than a loop iteration that ends in an error raised by its body.\<close>

fun orderly :: "session_call \<Rightarrow> bool" where
  "orderly (Loop h (Slept now outcome)) = True"
| "orderly (Loop h it) = False"
| "orderly c = True"

text \<open>The task map holds exactly the running loops, each under its owner.\<close>

definition registry_exact :: "DetectionConnectionManager \<Rightarrow> bool" where
  "registry_exact m \<longleftrightarrow>
     (\<forall>uid h. detection_tasks m uid = Some h \<longrightarrow>
        h < length (tasks m) \<and> owner (tasks m ! h) = uid \<and> status (tasks m ! h) = Running) \<and>
     (\<forall>h<length (tasks m). status (tasks m ! h) = Running \<longrightarrow>
        detection_tasks m (owner (tasks m ! h)) = Some h)"

section \<open>Properties of the alert service\<close>

subsection \<open>Configurations\<close>

lemma alert_type_value_inj: "alert_type_value a = alert_type_value b \<Longrightarrow> a = b"
  by (cases a; cases b) simp_all

lemma can_send_alert_configs:
  "alert_configs (snd (can_send_alert s uid atype t)) = alert_configs s"
  by (simp add: can_send_alert_def Let_def split: option.splits)

lemma send_alert_configs:
  "alert_configs (fst (snd (send_alert s uid atype lvl msg conf meta clk))) = alert_configs s"
  using can_send_alert_configs [of s uid atype "can_send_time clk"]
  by (auto simp: send_alert_def Let_def update_rate_limits_def
      split: option.splits prod.splits bool.splits)

lemma keeps_config_Cons:
  "keeps_config atype (c # cs) \<longleftrightarrow> keeps_config atype [c] \<and> keeps_config atype cs"
  by (cases c) auto

lemma do_call_configs:
  "keeps_config atype [c] \<Longrightarrow>
   alert_configs (do_call s c) (alert_type_value atype) = alert_configs s (alert_type_value atype)"
  by (cases c)
     (auto simp: send_alert_configs update_config_def register_callback_def Let_def
        clear_history_def dest: alert_type_value_inj split: option.splits)

lemma run_configs:
  "keeps_config atype cs \<Longrightarrow>
   alert_configs (run s cs) (alert_type_value atype) = alert_configs s (alert_type_value atype)"
proof (induction cs arbitrary: s)
  case Nil
  then show ?case by simp
next
  case (Cons c cs)
  from Cons.prems have k: "keeps_config atype [c]" "keeps_config atype cs"
    using keeps_config_Cons by blast+
  show ?case using Cons.IH [OF k(2)] do_call_configs [OF k(1)] by simp
qed

lemma init_configs:
  "alert_configs init =
     [''visual'' \<mapsto> snd (default_configs ! 0), ''audio'' \<mapsto> snd (default_configs ! 1),
      ''haptic'' \<mapsto> snd (default_configs ! 2), ''notification'' \<mapsto> snd (default_configs ! 3)]"
  by (simp add: init_def default_configs_def)

lemma init_fresh: "fresh init"
  by (simp add: fresh_def init_def default_configs_def)

subsection \<open>Rejection below the threshold\<close>

text \<open>
  C3: when the confidence is strictly below the threshold configured for the channel,
  \<open>send_alert\<close> returns false and leaves the whole service as it was: no event is
  appended to the history, and neither the cooldowns nor the rate limits change. All it
  does is log a debug record.
\<close>

theorem send_alert_below_threshold:
  "alert_configs s (alert_type_value atype) = Some config \<Longrightarrow> conf < threshold config \<Longrightarrow>
   send_alert s uid atype lvl msg conf meta clk = (False, s, [Log_debug])"
  by (simp add: send_alert_def)

theorem send_alert_below_threshold_witness:
  "alert_configs init (alert_type_value VISUAL) = Some (snd (default_configs ! 0)) \<and>
   (1 / 2 :: real) < threshold (snd (default_configs ! 0)) \<and>
   send_alert init ''u'' VISUAL HIGH ''peek'' (1 / 2) None (at_time 0) = (False, init, [Log_debug])"
proof -
  have c: "alert_configs init (alert_type_value VISUAL) = Some (snd (default_configs ! 0))"
    by (simp add: init_configs)
  have t: "(1 / 2 :: real) < threshold (snd (default_configs ! 0))"
    by (simp add: default_configs_def)
  show ?thesis
    using c t send_alert_below_threshold [OF c t, of "''u''" HIGH "''peek''" None "at_time 0"]
    by simp
qed

subsection \<open>Channels without a default configuration\<close>

text \<open>
  C10: a freshly constructed service has configurations for visual, audio, haptic and
  notification only. On the email and sms channels, as long as no call has configured the
  channel, \<open>send_alert\<close> returns false for every user, level, message and confidence,
  and changes nothing.
\<close>

theorem email_sms_unconfigured:
  "dom (alert_configs init) = {''visual'', ''audio'', ''haptic'', ''notification''} \<and>
   (atype = EMAIL \<or> atype = SMS \<longrightarrow> keeps_config atype cs \<longrightarrow>
      send_alert (run init cs) uid atype lvl msg conf meta clk =
        (False, run init cs, [Log_warning]))"
proof (intro conjI impI)
  show "dom (alert_configs init) = {''visual'', ''audio'', ''haptic'', ''notification''}"
    by (auto simp add: init_configs)
next
  assume a: "atype = EMAIL \<or> atype = SMS" and k: "keeps_config atype cs"
  from a have "alert_configs init (alert_type_value atype) = None"
    by (auto simp add: init_configs)
  with run_configs [OF k, of init]
  have "alert_configs (run init cs) (alert_type_value atype) = None" by simp
  then show "send_alert (run init cs) uid atype lvl msg conf meta clk =
        (False, run init cs, [Log_warning])"
    by (simp add: send_alert_def)
qed

theorem email_sms_unconfigured_witness:
  "(EMAIL = EMAIL \<or> EMAIL = SMS) \<and>
   keeps_config EMAIL [Send ''u'' VISUAL HIGH ''peek'' 1 None (at_time 0),
                       Configure SMS (snd (default_configs ! 0))] \<and>
   fst (send_alert
          (run init [Send ''u'' VISUAL HIGH ''peek'' 1 None (at_time 0),
                     Configure SMS (snd (default_configs ! 0))])
          ''u'' EMAIL CRITICAL ''peek'' 1 None (at_time 5)) = False"
  using email_sms_unconfigured
    [of EMAIL "[Send ''u'' VISUAL HIGH ''peek'' 1 None (at_time 0),
                Configure SMS (snd (default_configs ! 0))]"
        "''u''" CRITICAL "''peek''" 1 None "at_time 5"]
  by simp

subsection \<open>Configuration updates\<close>

lemma update_config_other:
  "atype' \<noteq> atype \<Longrightarrow>
   alert_configs (update_config s atype config) (alert_type_value atype')
     = alert_configs s (alert_type_value atype')"
  using alert_type_value_inj by (auto simp add: update_config_def)

text \<open>
  C8 as stated fails: \<open>update_config\<close> validates nothing. Here a configuration with
  threshold 3/2 and cooldown -1 replaces the default one of the visual channel, and an
  alert of confidence 1, which the default configuration admits, is rejected after it.
\<close>

theorem update_config_accepts_invalid:
  "alert_configs
     (update_config init VISUAL
        \<lparr>config_alert_type = VISUAL, enabled = True, threshold = 3 / 2, cooldown = - 1,
         max_frequency = 20, custom_message = None\<rparr>) ''visual''
     = Some \<lparr>config_alert_type = VISUAL, enabled = True, threshold = 3 / 2, cooldown = - 1,
             max_frequency = 20, custom_message = None\<rparr> \<and>
   fst (send_alert init ''u'' VISUAL HIGH ''peek'' 1 None (at_time 0)) \<and>
   \<not> fst (send_alert
            (update_config init VISUAL
               \<lparr>config_alert_type = VISUAL, enabled = True, threshold = 3 / 2, cooldown = - 1,
                max_frequency = 20, custom_message = None\<rparr>)
            ''u'' VISUAL HIGH ''peek'' 1 None (at_time 0))"
  by (simp add: update_config_def init_def default_configs_def send_alert_def
      can_send_alert_def Let_def update_rate_limits_def at_time_def rate_key_def)

text \<open>
  C8 as amended: \<open>update_config\<close> accepts every configuration, whatever its threshold
  and cooldown. The configuration is installed for the channel, nothing else in the
  service changes, and the next admission check on the channel compares against the new
  threshold.
\<close>

theorem update_config_installs_any:
  "alert_configs (update_config s atype config) (alert_type_value atype) = Some config \<and>
   alert_history (update_config s atype config) = alert_history s \<and>
   rate_limits (update_config s atype config) = rate_limits s \<and>
   cooldowns (update_config s atype config) = cooldowns s \<and>
   alert_callbacks (update_config s atype config) = alert_callbacks s \<and>
   (conf < threshold config \<longrightarrow>
      \<not> fst (send_alert (update_config s atype config) uid atype lvl msg conf meta clk))"
  by (simp add: update_config_def send_alert_def)

theorem update_config_installs_any_witness:
  "alert_configs (update_config init AUDIO
      \<lparr>config_alert_type = AUDIO, enabled = True, threshold = 2, cooldown = - 5,
       max_frequency = 10, custom_message = None\<rparr>) (alert_type_value AUDIO)
     = Some \<lparr>config_alert_type = AUDIO, enabled = True, threshold = 2, cooldown = - 5,
             max_frequency = 10, custom_message = None\<rparr> \<and>
   (1 :: real) < 2 \<and>
   \<not> fst (send_alert (update_config init AUDIO
      \<lparr>config_alert_type = AUDIO, enabled = True, threshold = 2, cooldown = - 5,
       max_frequency = 10, custom_message = None\<rparr>) ''u'' AUDIO HIGH ''peek'' 1 None (at_time 0))"
  using update_config_installs_any
    [of init AUDIO "\<lparr>config_alert_type = AUDIO, enabled = True, threshold = 2, cooldown = - 5,
       max_frequency = 10, custom_message = None\<rparr>" 1 "''u''" HIGH "''peek''" None "at_time 0"]
  by simp

subsection \<open>Statistics\<close>

lemma length_last_slice: "length (last_slice xs 100) = min 100 (length xs)"
  by (simp add: last_slice_def)

lemma total_alerts_length:
  "total_alerts (get_alert_stats s uid now) = length (get_alert_history s uid 100)"
  by (simp add: get_alert_stats_def Let_def split: prod.splits)

text \<open>
  \<open>get_alert_stats\<close> aggregates what \<open>get_alert_history\<close> returns under its default
  limit, the last 100 events: \<open>total_alerts\<close> is the number of events in the history
  (of the given user, when one is given) capped at 100.
\<close>

lemma total_alerts_capped:
  "total_alerts (get_alert_stats s uid now) =
     min 100 (length (case given uid of
                        Some u \<Rightarrow> filter (\<lambda>alert. user_id alert = u) (alert_history s)
                      | None \<Rightarrow> alert_history s))"
  unfolding total_alerts_length
  by (simp add: get_alert_history_def length_last_slice split: option.splits)

lemma history_of_101_alerts:
  "length (alert_history
     (run init (map (\<lambda>i. Send ''u'' VISUAL HIGH ''peek'' (9 / 10) None (at_time (3 * real i)))
                  [0..<101])))
   = 101"
  by (simp add: upt_rec init_def default_configs_def send_alert_def
      can_send_alert_def Let_def update_rate_limits_def at_time_def rate_key_def)

text \<open>
  C7 does not hold of the code. On a fresh service, 101 visual alerts for one user, three
  seconds apart, are all admitted, so the history holds 101 events; the statistics over
  all users then report a total of 100.
\<close>

theorem stats_of_101_alerts:
  "length (alert_history
     (run init (map (\<lambda>i. Send ''u'' VISUAL HIGH ''peek'' (9 / 10) None (at_time (3 * real i)))
                  [0..<101]))) = 101 \<and>
   total_alerts (get_alert_stats
     (run init (map (\<lambda>i. Send ''u'' VISUAL HIGH ''peek'' (9 / 10) None (at_time (3 * real i)))
                  [0..<101])) None now) = 100"
  by (simp add: total_alerts_capped history_of_101_alerts given_def)

subsection \<open>Callbacks that raise\<close>

lemma execute_callbacks_calls:
  "filter (\<lambda>e. e \<noteq> Log_error) (execute_callbacks cbs i ev) = map Called [i..<i + length cbs]"
proof (induction cbs arbitrary: i)
  case Nil
  then show ?case by simp
next
  case (Cons cb cbs)
  have "[i..<i + length (cb # cbs)] = i # [Suc i..<Suc i + length cbs]"
    by (simp add: upt_rec)
  then show ?case using Cons.IH [of "Suc i"] by (simp split: callback_outcome.splits)
qed

lemma execute_callbacks_errors:
  "length (filter (\<lambda>e. e = Log_error) (execute_callbacks cbs i ev))
     = length (filter (\<lambda>cb. cb ev = Raises) cbs)"
  by (induction cbs arbitrary: i) (simp_all split: callback_outcome.splits)

lemma can_send_alert_callbacks:
  "can_send_alert (s\<lparr>alert_callbacks := c\<rparr>) uid atype t =
     (fst (can_send_alert s uid atype t),
      (snd (can_send_alert s uid atype t))\<lparr>alert_callbacks := c\<rparr>)"
  by (simp add: can_send_alert_def Let_def split: option.splits)

lemma send_alert_callbacks:
  "fst (send_alert (s\<lparr>alert_callbacks := c\<rparr>) uid atype lvl msg conf meta clk) =
     fst (send_alert s uid atype lvl msg conf meta clk) \<and>
   fst (snd (send_alert (s\<lparr>alert_callbacks := c\<rparr>) uid atype lvl msg conf meta clk)) =
     (fst (snd (send_alert s uid atype lvl msg conf meta clk)))\<lparr>alert_callbacks := c\<rparr>"
  by (simp add: send_alert_def can_send_alert_callbacks Let_def update_rate_limits_def
       split: option.splits prod.splits bool.splits)

lemma send_multiple_alerts_Cons_fst:
  "fst (send_multiple_alerts s uid (a # atypes) lvl msg conf meta clks results) =
     fst (send_multiple_alerts (fst (snd (send_alert s uid a lvl msg conf meta (clks 0))))
            uid atypes lvl msg conf meta (\<lambda>i. clks (Suc i))
            (results(a \<mapsto> fst (send_alert s uid a lvl msg conf meta (clks 0)))))"
  by (simp split: prod.splits)

lemma send_multiple_alerts_callbacks:
  "fst (send_multiple_alerts (s\<lparr>alert_callbacks := c\<rparr>) uid atypes lvl msg conf meta clks
          results) =
     fst (send_multiple_alerts s uid atypes lvl msg conf meta clks results)"
proof (induction atypes arbitrary: s clks results)
  case Nil
  then show ?case by simp
next
  case (Cons a atypes)
  show ?case
    unfolding send_multiple_alerts_Cons_fst
    by (simp only: send_alert_callbacks Cons.IH)
qed

lemma send_alert_admitted:
  assumes "alert_configs s (alert_type_value atype) = Some config" "threshold config \<le> conf"
    "fst (can_send_alert s uid atype (can_send_time clk))"
  shows "fst (send_alert s uid atype lvl msg conf meta clk)"
    and "filter (\<lambda>e. e \<noteq> Log_error \<and> e \<noteq> Log_info)
           (snd (snd (send_alert s uid atype lvl msg conf meta clk)))
         = map Called [0..<length (case alert_callbacks s atype of None \<Rightarrow> [] | Some l \<Rightarrow> l)]"
proof -
  obtain s1 where c: "can_send_alert s uid atype (can_send_time clk) = (True, s1)"
    using assms(3) by (cases "can_send_alert s uid atype (can_send_time clk)") auto
  have cb: "alert_callbacks s1 = alert_callbacks s"
    using c by (auto simp: can_send_alert_def Let_def split: option.splits if_splits)
  show "fst (send_alert s uid atype lvl msg conf meta clk)"
    using assms c by (simp add: send_alert_def Let_def)
  have f: "filter (\<lambda>e. e \<noteq> Log_error \<and> e \<noteq> Log_info) xs
             = filter (\<lambda>e. e \<noteq> Log_info) (filter (\<lambda>e. e \<noteq> Log_error) xs)" for xs
    by (induction xs) auto
  show "filter (\<lambda>e. e \<noteq> Log_error \<and> e \<noteq> Log_info)
           (snd (snd (send_alert s uid atype lvl msg conf meta clk)))
         = map Called [0..<length (case alert_callbacks s atype of None \<Rightarrow> [] | Some l \<Rightarrow> l)]"
    using assms c cb
    by (simp add: send_alert_def Let_def update_rate_limits_def f execute_callbacks_calls
        del: filter_filter)
qed

text \<open>
  C4: when the configuration exists, the confidence reaches the threshold and
  \<open>_can_send_alert\<close> passes, \<open>send_alert\<close> returns true whatever the callbacks do, and
  calls every callback registered for the channel once, in registration order, whether
  earlier ones raised or not (a raising one adds an error record to the log). The result
  of \<open>send_alert\<close>, and the result map of \<open>send_multiple_alerts\<close>, do not depend on
  which callbacks are registered or on what they do. In the scenario, the visual callback
  returns and the audio callback raises: both channels are reported as admitted, both
  callbacks are called, and one error is logged.
\<close>

theorem callbacks_do_not_affect_admission:
  "(alert_configs s (alert_type_value atype) = Some config \<longrightarrow> threshold config \<le> conf \<longrightarrow>
    fst (can_send_alert s uid atype (can_send_time clk)) \<longrightarrow>
      fst (send_alert s uid atype lvl msg conf meta clk) \<and>
      filter (\<lambda>e. e \<noteq> Log_error \<and> e \<noteq> Log_info)
        (snd (snd (send_alert s uid atype lvl msg conf meta clk)))
        = map Called [0..<length (case alert_callbacks s atype of None \<Rightarrow> [] | Some l \<Rightarrow> l)]) \<and>
   fst (send_alert (s\<lparr>alert_callbacks := cbs\<rparr>) uid atype lvl msg conf meta clk) =
     fst (send_alert s uid atype lvl msg conf meta clk) \<and>
   fst (send_multiple_alerts (s\<lparr>alert_callbacks := cbs\<rparr>) uid atypes lvl msg conf meta clks
          results) =
     fst (send_multiple_alerts s uid atypes lvl msg conf meta clks results) \<and>
   fst (send_multiple_alerts
          (register_callback (register_callback init VISUAL (\<lambda>e. Returns)) AUDIO (\<lambda>e. Raises))
          ''u'' [VISUAL, AUDIO] HIGH ''peek'' (9 / 10) None (\<lambda>i. at_time 0) Map.empty)
     = [VISUAL \<mapsto> True, AUDIO \<mapsto> True] \<and>
   snd (snd (send_multiple_alerts
          (register_callback (register_callback init VISUAL (\<lambda>e. Returns)) AUDIO (\<lambda>e. Raises))
          ''u'' [VISUAL, AUDIO] HIGH ''peek'' (9 / 10) None (\<lambda>i. at_time 0) Map.empty))
     = [Called 0, Log_info, Called 0, Log_error, Log_info]"
proof (intro conjI impI)
  assume a: "alert_configs s (alert_type_value atype) = Some config" "threshold config \<le> conf"
    "fst (can_send_alert s uid atype (can_send_time clk))"
  show "fst (send_alert s uid atype lvl msg conf meta clk)"
    by (rule send_alert_admitted(1) [OF a])
  show "filter (\<lambda>e. e \<noteq> Log_error \<and> e \<noteq> Log_info)
        (snd (snd (send_alert s uid atype lvl msg conf meta clk)))
        = map Called [0..<length (case alert_callbacks s atype of None \<Rightarrow> [] | Some l \<Rightarrow> l)]"
    by (rule send_alert_admitted(2) [OF a])
next
  show "fst (send_alert (s\<lparr>alert_callbacks := cbs\<rparr>) uid atype lvl msg conf meta clk) =
     fst (send_alert s uid atype lvl msg conf meta clk)"
    by (simp add: send_alert_callbacks)
next
  show "fst (send_multiple_alerts (s\<lparr>alert_callbacks := cbs\<rparr>) uid atypes lvl msg conf meta clks
          results) =
     fst (send_multiple_alerts s uid atypes lvl msg conf meta clks results)"
    by (rule send_multiple_alerts_callbacks)
next
  show "fst (send_multiple_alerts
          (register_callback (register_callback init VISUAL (\<lambda>e. Returns)) AUDIO (\<lambda>e. Raises))
          ''u'' [VISUAL, AUDIO] HIGH ''peek'' (9 / 10) None (\<lambda>i. at_time 0) Map.empty)
     = [VISUAL \<mapsto> True, AUDIO \<mapsto> True]"
    by (simp add: init_def default_configs_def register_callback_def send_alert_def
        can_send_alert_def Let_def update_rate_limits_def at_time_def rate_key_def)
next
  show "snd (snd (send_multiple_alerts
          (register_callback (register_callback init VISUAL (\<lambda>e. Returns)) AUDIO (\<lambda>e. Raises))
          ''u'' [VISUAL, AUDIO] HIGH ''peek'' (9 / 10) None (\<lambda>i. at_time 0) Map.empty))
     = [Called 0, Log_info, Called 0, Log_error, Log_info]"
    by (simp add: init_def default_configs_def register_callback_def send_alert_def
        can_send_alert_def Let_def update_rate_limits_def at_time_def rate_key_def)
qed

theorem callbacks_do_not_affect_admission_witness:
  "alert_configs (register_callback init AUDIO (\<lambda>e. Raises)) (alert_type_value AUDIO)
     = Some (snd (default_configs ! 1)) \<and>
   threshold (snd (default_configs ! 1)) \<le> 9 / 10 \<and>
   fst (can_send_alert (register_callback init AUDIO (\<lambda>e. Raises)) ''u'' AUDIO
          (can_send_time (at_time 0))) \<and>
   fst (send_alert (register_callback init AUDIO (\<lambda>e. Raises)) ''u'' AUDIO HIGH ''peek''
          (9 / 10) None (at_time 0)) \<and>
   filter (\<lambda>e. e \<noteq> Log_error \<and> e \<noteq> Log_info)
     (snd (snd (send_alert (register_callback init AUDIO (\<lambda>e. Raises)) ''u'' AUDIO HIGH ''peek''
          (9 / 10) None (at_time 0)))) = [Called 0]"
proof -
  have c: "alert_configs (register_callback init AUDIO (\<lambda>e. Raises)) (alert_type_value AUDIO)
     = Some (snd (default_configs ! 1))"
    by (simp add: register_callback_def init_configs)
  have t: "threshold (snd (default_configs ! 1)) \<le> 9 / 10"
    by (simp add: default_configs_def)
  have a: "fst (can_send_alert (register_callback init AUDIO (\<lambda>e. Raises)) ''u'' AUDIO
          (can_send_time (at_time 0)))"
    by (simp add: can_send_alert_def register_callback_def init_def default_configs_def Let_def)
  have l: "alert_callbacks (register_callback init AUDIO (\<lambda>e. Raises)) AUDIO = Some [\<lambda>e. Raises]"
    by (simp add: register_callback_def init_def default_configs_def)
  show ?thesis
    using c t a l callbacks_do_not_affect_admission
      [of "register_callback init AUDIO (\<lambda>e. Raises)" AUDIO "snd (default_configs ! 1)"
          "9 / 10" "''u''" "at_time 0" HIGH "''peek''" None]
    by simp
qed

subsection \<open>Cooldown and rate limit\<close>

lemma no_underscore: "CHR ''_'' \<notin> set (alert_type_value a)"
  by (cases a) simp_all

lemma split_at_first:
  "x \<notin> set xs \<Longrightarrow> x \<notin> set xs' \<Longrightarrow> xs @ x # ys = xs' @ x # ys' \<Longrightarrow> xs = xs' \<and> ys = ys'"
proof (induction xs arbitrary: xs')
  case Nil
  then show ?case by (cases xs') auto
next
  case (Cons a as)
  then show ?case by (cases xs') auto
qed

lemma rate_key_inj: "rate_key u a = rate_key u' a' \<Longrightarrow> u = u' \<and> a = a'"
proof -
  assume "rate_key u a = rate_key u' a'"
  then have "rev (alert_type_value a) @ CHR ''_'' # rev u = rev (alert_type_value a') @ CHR ''_'' # rev u'"
    by (metis rate_key_def rev_append rev.simps(2) append.assoc append_Cons append_Nil rev_rev_ident)
  moreover have "CHR ''_'' \<notin> set (rev (alert_type_value a))" "CHR ''_'' \<notin> set (rev (alert_type_value a'))"
    using no_underscore by simp_all
  ultimately have "rev (alert_type_value a) = rev (alert_type_value a') \<and> rev u = rev u'"
    by (rule split_at_first [rotated 2])
  then show ?thesis using alert_type_value_inj by auto
qed

lemma can_send_alert_False:
  "can_send_alert s uid atype c = (False, s1) \<Longrightarrow>
   alert_history s1 = alert_history s \<and> cooldowns s1 = cooldowns s \<and>
   (rate_limits s1 = rate_limits s \<or>
    rate_limits s1 = (rate_limits s)(rate_key uid atype \<mapsto>
       filter (\<lambda>ts. c - 60 < ts) (rate_list s (rate_key uid atype))))"
  by (auto simp: can_send_alert_def Let_def rate_list_def split: option.splits if_splits)

lemma can_send_alert_True:
  "can_send_alert s uid atype c = (True, s1) \<Longrightarrow>
   \<exists>config. alert_configs s (alert_type_value atype) = Some config \<and> enabled config \<and>
     (\<forall>u. cooldowns s (rate_key uid atype) = Some u \<longrightarrow> real_of_int (cooldown config) \<le> c - u) \<and>
     int (length (filter (\<lambda>ts. c - 60 < ts) (rate_list s (rate_key uid atype))))
       < max_frequency config \<and>
     s1 = s\<lparr>rate_limits := (rate_limits s)(rate_key uid atype \<mapsto>
            filter (\<lambda>ts. c - 60 < ts) (rate_list s (rate_key uid atype)))\<rparr>"
  by (auto simp: can_send_alert_def Let_def rate_list_def split: option.splits if_splits)

lemma send_alert_rejected:
  assumes "\<not> fst (send_alert s uid atype lvl msg conf meta clk)"
  shows "alert_history (fst (snd (send_alert s uid atype lvl msg conf meta clk))) = alert_history s"
    and "cooldowns (fst (snd (send_alert s uid atype lvl msg conf meta clk))) = cooldowns s"
    and "rate_limits (fst (snd (send_alert s uid atype lvl msg conf meta clk))) = rate_limits s \<or>
         rate_limits (fst (snd (send_alert s uid atype lvl msg conf meta clk))) =
           (rate_limits s)(rate_key uid atype \<mapsto>
              filter (\<lambda>ts. can_send_time clk - 60 < ts) (rate_list s (rate_key uid atype)))"
proof -
  obtain b s1 where c: "can_send_alert s uid atype (can_send_time clk) = (b, s1)"
    by (cases "can_send_alert s uid atype (can_send_time clk)") auto
  have r: "fst (snd (send_alert s uid atype lvl msg conf meta clk)) = s \<or>
        (\<not> b \<and> fst (snd (send_alert s uid atype lvl msg conf meta clk)) = s1)"
    using assms c by (cases b) (auto simp: send_alert_def Let_def split: option.splits if_splits)
  show "alert_history (fst (snd (send_alert s uid atype lvl msg conf meta clk))) = alert_history s"
    using r c can_send_alert_False [of s uid atype "can_send_time clk" s1] by auto
  show "cooldowns (fst (snd (send_alert s uid atype lvl msg conf meta clk))) = cooldowns s"
    using r c can_send_alert_False [of s uid atype "can_send_time clk" s1] by auto
  show "rate_limits (fst (snd (send_alert s uid atype lvl msg conf meta clk))) = rate_limits s \<or>
         rate_limits (fst (snd (send_alert s uid atype lvl msg conf meta clk))) =
           (rate_limits s)(rate_key uid atype \<mapsto>
              filter (\<lambda>ts. can_send_time clk - 60 < ts) (rate_list s (rate_key uid atype)))"
    using r c can_send_alert_False [of s uid atype "can_send_time clk" s1] by auto
qed

lemma send_alert_accepted:
  assumes "fst (send_alert s uid atype lvl msg conf meta clk)"
  shows "\<exists>config ev. alert_configs s (alert_type_value atype) = Some config \<and>
     threshold config \<le> conf \<and> enabled config \<and>
     (\<forall>u. cooldowns s (rate_key uid atype) = Some u \<longrightarrow>
          real_of_int (cooldown config) \<le> can_send_time clk - u) \<and>
     int (length (filter (\<lambda>ts. can_send_time clk - 60 < ts) (rate_list s (rate_key uid atype))))
       < max_frequency config \<and>
     user_id ev = uid \<and> alert_type ev = atype \<and> timestamp ev = event_time clk \<and>
     alert_history (fst (snd (send_alert s uid atype lvl msg conf meta clk)))
       = alert_history s @ [ev] \<and>
     cooldowns (fst (snd (send_alert s uid atype lvl msg conf meta clk)))
       = (cooldowns s)(rate_key uid atype \<mapsto> update_time clk) \<and>
     rate_limits (fst (snd (send_alert s uid atype lvl msg conf meta clk)))
       = (rate_limits s)(rate_key uid atype \<mapsto>
           filter (\<lambda>ts. can_send_time clk - 60 < ts) (rate_list s (rate_key uid atype))
             @ [update_time clk])"
proof -
  obtain config where cfg: "alert_configs s (alert_type_value atype) = Some config"
    using assms by (auto simp: send_alert_def split: option.splits)
  have th: "threshold config \<le> conf"
    using assms cfg by (auto simp: send_alert_def split: if_splits)
  obtain b s1 where c: "can_send_alert s uid atype (can_send_time clk) = (b, s1)"
    by (cases "can_send_alert s uid atype (can_send_time clk)") auto
  have b: "b" using assms cfg th c by (cases b) (auto simp: send_alert_def)
  from can_send_alert_True [of s uid atype "can_send_time clk" s1] c b cfg
  have en: "enabled config"
    and cd: "\<forall>u. cooldowns s (rate_key uid atype) = Some u \<longrightarrow>
          real_of_int (cooldown config) \<le> can_send_time clk - u"
    and rl: "int (length (filter (\<lambda>ts. can_send_time clk - 60 < ts) (rate_list s (rate_key uid atype))))
       < max_frequency config"
    and s1: "s1 = s\<lparr>rate_limits := (rate_limits s)(rate_key uid atype \<mapsto>
            filter (\<lambda>ts. can_send_time clk - 60 < ts) (rate_list s (rate_key uid atype)))\<rparr>"
    by auto
  show ?thesis
    using cfg th c b en cd rl
    by (simp add: send_alert_def Let_def update_rate_limits_def s1)
qed

lemma tracked_viewI:
  assumes "\<And>u. cd = Some u \<Longrightarrow> u \<le> T"
    and "\<And>e. e \<in> set h \<Longrightarrow> \<exists>u. cd = Some u \<and> timestamp e \<le> u"
    and "\<And>\<tau>. T - 60 \<le> \<tau> \<Longrightarrow>
           length (filter (\<lambda>e. \<tau> < timestamp e) h) \<le> length (filter (\<lambda>r. \<tau> < r) rl)"
  shows "tracked_view T h cd rl"
  using assms by (simp add: tracked_view_def)

lemma tracked_view_last: "tracked_view T h cd rl \<Longrightarrow> cd = Some u \<Longrightarrow> u \<le> T"
  by (simp add: tracked_view_def)

lemma tracked_view_stamp:
  "tracked_view T h cd rl \<Longrightarrow> e \<in> set h \<Longrightarrow> \<exists>u. cd = Some u \<and> timestamp e \<le> u"
  by (simp add: tracked_view_def)

lemma tracked_view_count:
  "tracked_view T h cd rl \<Longrightarrow> T - 60 \<le> \<tau> \<Longrightarrow>
   length (filter (\<lambda>e. \<tau> < timestamp e) h) \<le> length (filter (\<lambda>r. \<tau> < r) rl)"
  by (simp add: tracked_view_def)

lemma tracked_view_mono:
  assumes "tracked_view T h cd rl" "T \<le> T'"
  shows "tracked_view T' h cd rl"
proof (rule tracked_viewI)
  fix u assume "cd = Some u"
  then show "u \<le> T'" using tracked_view_last [OF assms(1)] assms(2) by fastforce
next
  fix e assume "e \<in> set h"
  then show "\<exists>u. cd = Some u \<and> timestamp e \<le> u" by (rule tracked_view_stamp [OF assms(1)])
next
  fix \<tau> assume "T' - 60 \<le> \<tau>"
  then have "T - 60 \<le> \<tau>" using assms(2) by simp
  then show "length (filter (\<lambda>e. \<tau> < timestamp e) h) \<le> length (filter (\<lambda>r. \<tau> < r) rl)"
    by (rule tracked_view_count [OF assms(1)])
qed

lemma filter_prune:
  "c - 60 \<le> \<tau> \<Longrightarrow>
   filter (\<lambda>r. \<tau> < r) (filter (\<lambda>ts. c - 60 < ts) rl) = filter (\<lambda>r. \<tau> < (r::real)) rl"
  by (induction rl) auto

lemma tracked_view_prune:
  assumes "tracked_view T h cd rl" "T \<le> c"
  shows "tracked_view c h cd (filter (\<lambda>ts. c - 60 < ts) rl)"
proof (rule tracked_viewI)
  fix u assume "cd = Some u"
  then show "u \<le> c" using tracked_view_last [OF assms(1)] assms(2) by fastforce
next
  fix e assume "e \<in> set h"
  then show "\<exists>u. cd = Some u \<and> timestamp e \<le> u" by (rule tracked_view_stamp [OF assms(1)])
next
  fix \<tau> assume t: "c - 60 \<le> \<tau>"
  then have "T - 60 \<le> \<tau>" using assms(2) by simp
  then have "length (filter (\<lambda>e. \<tau> < timestamp e) h) \<le> length (filter (\<lambda>r. \<tau> < r) rl)"
    by (rule tracked_view_count [OF assms(1)])
  then show "length (filter (\<lambda>e. \<tau> < timestamp e) h)
          \<le> length (filter (\<lambda>r. \<tau> < r) (filter (\<lambda>ts. c - 60 < ts) rl))"
    by (simp only: filter_prune [OF t])
qed

lemma tracked_view_append:
  assumes "tracked_view T h cd rl" "T \<le> timestamp ev" "timestamp ev \<le> u'"
  shows "tracked_view u' (h @ [ev]) (Some u') (rl @ [u'])"
proof (rule tracked_viewI)
  fix u assume "Some u' = Some u"
  then show "u \<le> u'" by simp
next
  fix e assume "e \<in> set (h @ [ev])"
  then consider "e \<in> set h" | "e = ev" by auto
  then show "\<exists>u. Some u' = Some u \<and> timestamp e \<le> u"
  proof cases
    case 1
    then obtain u where u: "cd = Some u" "timestamp e \<le> u"
      using tracked_view_stamp [OF assms(1)] by blast
    then have "u \<le> T" using tracked_view_last [OF assms(1)] by simp
    then show ?thesis using u assms(2,3) by simp
  next
    case 2
    then show ?thesis using assms(3) by simp
  qed
next
  fix \<tau> assume "u' - 60 \<le> \<tau>"
  then have "T - 60 \<le> \<tau>" using assms(2,3) by simp
  then have "length (filter (\<lambda>e. \<tau> < timestamp e) h) \<le> length (filter (\<lambda>r. \<tau> < r) rl)"
    by (rule tracked_view_count [OF assms(1)])
  then show "length (filter (\<lambda>e. \<tau> < timestamp e) (h @ [ev]))
          \<le> length (filter (\<lambda>r. \<tau> < r) (rl @ [u']))"
    using assms(3) by simp
qed

lemma length_filter_filter_le: "length (filter P (filter Q h)) \<le> length (filter P h)"
  by (induction h) auto

lemma tracked_view_filter:
  assumes "tracked_view T h cd rl"
  shows "tracked_view T (filter Q h) cd rl"
proof (rule tracked_viewI)
  fix u assume "cd = Some u"
  then show "u \<le> T" by (rule tracked_view_last [OF assms])
next
  fix e assume "e \<in> set (filter Q h)"
  then have "e \<in> set h" by simp
  then show "\<exists>u. cd = Some u \<and> timestamp e \<le> u" by (rule tracked_view_stamp [OF assms])
next
  fix \<tau> assume "T - 60 \<le> \<tau>"
  then have "length (filter (\<lambda>e. \<tau> < timestamp e) h) \<le> length (filter (\<lambda>r. \<tau> < r) rl)"
    by (rule tracked_view_count [OF assms])
  moreover have "length (filter (\<lambda>e. \<tau> < timestamp e) (filter Q h))
                   \<le> length (filter (\<lambda>e. \<tau> < timestamp e) h)"
    by (rule length_filter_filter_le)
  ultimately show "length (filter (\<lambda>e. \<tau> < timestamp e) (filter Q h))
                     \<le> length (filter (\<lambda>r. \<tau> < r) rl)"
    by (rule order_trans [rotated])
qed

lemma spaced_append:
  assumes "spaced gap h" "tracked_view T h cd rl" "\<And>u. cd = Some u \<Longrightarrow> gap \<le> c - u"
    "c \<le> timestamp ev"
  shows "spaced gap (h @ [ev])"
proof -
  have "gap \<le> timestamp ev - timestamp e" if m: "e \<in> set h" for e
  proof -
    obtain u where u: "cd = Some u" "timestamp e \<le> u"
      using tracked_view_stamp [OF assms(2) m] by blast
    have "gap \<le> c - u" using assms(3) u(1) by simp
    then show ?thesis using u(2) assms(4) by simp
  qed
  then show ?thesis using assms(1) by (simp add: spaced_def sorted_wrt_append)
qed

lemma spaced_filter: "spaced gap h \<Longrightarrow> spaced gap (filter Q h)"
  by (simp add: spaced_def sorted_wrt_filter)

lemma within_rateD:
  "within_rate m h \<Longrightarrow>
   int (length (filter (\<lambda>e. a < timestamp e \<and> timestamp e \<le> a + 60) h)) \<le> m"
  by (simp add: within_rate_def)

lemma within_rate_append:
  assumes "within_rate m h" "tracked_view c h cd rl" "int (length rl) < m" "c \<le> timestamp ev"
  shows "within_rate m (h @ [ev])"
proof -
  have "int (length (filter (\<lambda>e. a < timestamp e \<and> timestamp e \<le> a + 60) (h @ [ev]))) \<le> m" for a
  proof (cases "a < timestamp ev \<and> timestamp ev \<le> a + 60")
    case True
    then have "c - 60 \<le> a" using assms(4) by simp
    then have "length (filter (\<lambda>e. a < timestamp e) h) \<le> length (filter (\<lambda>r. a < r) rl)"
      by (rule tracked_view_count [OF assms(2)])
    moreover have "length (filter (\<lambda>r. a < r) rl) \<le> length rl" by simp
    moreover have "length (filter (\<lambda>e. a < timestamp e \<and> timestamp e \<le> a + 60) h)
                     \<le> length (filter (\<lambda>e. a < timestamp e) h)"
      by (induction h) auto
    ultimately have "length (filter (\<lambda>e. a < timestamp e \<and> timestamp e \<le> a + 60) h) \<le> length rl"
      by linarith
    then show ?thesis using True assms(3) by simp
  next
    case False
    then show ?thesis using within_rateD [OF assms(1), of a] by auto
  qed
  then show ?thesis by (simp add: within_rate_def)
qed

lemma within_rate_filter:
  assumes "within_rate m h"
  shows "within_rate m (filter Q h)"
proof -
  have "int (length (filter (\<lambda>e. a < timestamp e \<and> timestamp e \<le> a + 60) (filter Q h))) \<le> m" for a
    using within_rateD [OF assms, of a]
      length_filter_filter_le [of "\<lambda>e. a < timestamp e \<and> timestamp e \<le> a + 60" Q h]
    by linarith
  then show ?thesis by (simp add: within_rate_def)
qed

lemma dispatched_append:
  "dispatched uid atype (h @ [ev]) =
     (if user_id ev = uid \<and> alert_type ev = atype then dispatched uid atype h @ [ev]
      else dispatched uid atype h)"
  by (simp add: dispatched_def)

lemma rate_list_eq:
  "rate_limits s' = m \<Longrightarrow> rate_list s' k = (case m k of None \<Rightarrow> [] | Some l \<Rightarrow> l)"
  by (simp add: rate_list_def)

lemma send_alert_step:
  assumes ok: "admission_ok T s uid atype config" and clk: "clock_ordered T clk"
  shows "admission_ok (update_time clk)
           (fst (snd (send_alert s uid' atype' lvl msg conf meta clk))) uid atype config"
proof -
  let ?s' = "fst (snd (send_alert s uid' atype' lvl msg conf meta clk))"
  let ?k = "rate_key uid atype"
  let ?k' = "rate_key uid' atype'"
  let ?H = "dispatched uid atype (alert_history s)"
  let ?kept = "filter (\<lambda>ts. can_send_time clk - 60 < ts) (rate_list s ?k)"
  from ok have cfg: "alert_configs s (alert_type_value atype) = Some config"
    and tr: "tracked_view T ?H (cooldowns s ?k) (rate_list s ?k)"
    and sp: "spaced (real_of_int (cooldown config)) ?H"
    and wr: "0 \<le> max_frequency config \<longrightarrow> within_rate (max_frequency config) ?H"
    by (simp_all add: admission_ok_def tracked_def)
  from clk have t: "T \<le> can_send_time clk" "can_send_time clk \<le> event_time clk"
    "event_time clk \<le> update_time clk"
    by (simp_all add: clock_ordered_def)
  have cfg': "alert_configs ?s' (alert_type_value atype) = Some config"
    using cfg by (simp add: send_alert_configs)
  have tr_c: "tracked_view (can_send_time clk) ?H (cooldowns s ?k) ?kept"
    by (rule tracked_view_prune [OF tr t(1)])
  show ?thesis
  proof (cases "fst (send_alert s uid' atype' lvl msg conf meta clk)")
    case False
    note r = send_alert_rejected [OF False]
    have rl: "rate_list ?s' ?k = rate_list s ?k \<or> rate_list ?s' ?k = ?kept"
    proof (cases "?k' = ?k")
      case True
      then show ?thesis using r(3) by (auto simp: rate_list_def)
    next
      case False
      then show ?thesis using r(3) by (auto simp: rate_list_def)
    qed
    have "tracked_view (update_time clk) ?H (cooldowns s ?k) (rate_list ?s' ?k)"
    proof -
      from rl show ?thesis
      proof
        assume "rate_list ?s' ?k = rate_list s ?k"
        then show ?thesis using tracked_view_mono [OF tr, of "update_time clk"] t by simp
      next
        assume "rate_list ?s' ?k = ?kept"
        then show ?thesis using tracked_view_mono [OF tr_c, of "update_time clk"] t by simp
      qed
    qed
    then show ?thesis using cfg' sp wr r(1,2) by (simp add: admission_ok_def tracked_def)
  next
    case True
    from send_alert_accepted [OF True] obtain config' ev where
      a: "alert_configs s (alert_type_value atype') = Some config'"
      and cd: "\<forall>u. cooldowns s ?k' = Some u \<longrightarrow>
          real_of_int (cooldown config') \<le> can_send_time clk - u"
      and mx: "int (length (filter (\<lambda>ts. can_send_time clk - 60 < ts) (rate_list s ?k')))
       < max_frequency config'"
      and ev: "user_id ev = uid'" "alert_type ev = atype'" "timestamp ev = event_time clk"
      and h: "alert_history ?s' = alert_history s @ [ev]"
      and c: "cooldowns ?s' = (cooldowns s)(?k' \<mapsto> update_time clk)"
      and rl: "rate_limits ?s' = (rate_limits s)(?k' \<mapsto>
           filter (\<lambda>ts. can_send_time clk - 60 < ts) (rate_list s ?k') @ [update_time clk])"
      by blast
    show ?thesis
    proof (cases "uid' = uid \<and> atype' = atype")
      case True
      then have same: "uid' = uid" "atype' = atype" by simp_all
      have config': "config' = config" using a cfg same by simp
      have H': "dispatched uid atype (alert_history ?s') = ?H @ [ev]"
        using h ev same by (simp add: dispatched_append)
      have c': "cooldowns ?s' ?k = Some (update_time clk)" using c same by simp
      have rl': "rate_list ?s' ?k = ?kept @ [update_time clk]"
        using rl same by (simp add: rate_list_def)
      have 1: "tracked_view (update_time clk) (?H @ [ev]) (Some (update_time clk))
                 (?kept @ [update_time clk])"
        by (rule tracked_view_append [OF tr_c]) (simp_all add: ev t)
      have 2: "spaced (real_of_int (cooldown config)) (?H @ [ev])"
      proof (rule spaced_append [OF sp tr])
        fix u assume "cooldowns s ?k = Some u"
        then show "real_of_int (cooldown config) \<le> can_send_time clk - u"
          using cd same config' by simp
      next
        show "can_send_time clk \<le> timestamp ev" using ev t by simp
      qed
      have mx': "int (length ?kept) < max_frequency config" using mx same config' by simp
      then have "0 \<le> max_frequency config" by linarith
      then have wr': "within_rate (max_frequency config) ?H" using wr by simp
      have 3: "within_rate (max_frequency config) (?H @ [ev])"
      proof (rule within_rate_append [OF wr' tr_c])
        show "int (length ?kept) < max_frequency config" by (rule mx')
        show "can_send_time clk \<le> timestamp ev" using ev t by simp
      qed
      show ?thesis using cfg' 1 2 3 H' c' rl' by (simp add: admission_ok_def tracked_def)
    next
      case False
      then have k: "?k' \<noteq> ?k" using rate_key_inj by blast
      have H': "dispatched uid atype (alert_history ?s') = ?H"
        using h ev False by (auto simp add: dispatched_append)
      have c': "cooldowns ?s' ?k = cooldowns s ?k" using c k by simp
      have rl': "rate_list ?s' ?k = rate_list s ?k"
        using rl k by (simp add: rate_list_def)
      have "tracked_view (update_time clk) ?H (cooldowns s ?k) (rate_list s ?k)"
        using tracked_view_mono [OF tr, of "update_time clk"] t by simp
      then show ?thesis using cfg' sp wr H' c' rl' by (simp add: admission_ok_def tracked_def)
    qed
  qed
qed

lemma dispatched_filter:
  "dispatched uid atype (filter Q h) = filter Q (dispatched uid atype h)"
  by (auto simp add: dispatched_def intro: filter_cong)

lemma clear_history_filter:
  "\<exists>Q. alert_history (clear_history s u) = filter Q (alert_history s) \<and>
       cooldowns (clear_history s u) = cooldowns s \<and>
       rate_limits (clear_history s u) = rate_limits s \<and>
       alert_configs (clear_history s u) = alert_configs s"
proof (cases "given u")
  case None
  then have "alert_history (clear_history s u) = filter (\<lambda>e. False) (alert_history s) \<and>
       cooldowns (clear_history s u) = cooldowns s \<and>
       rate_limits (clear_history s u) = rate_limits s \<and>
       alert_configs (clear_history s u) = alert_configs s"
    by (simp add: clear_history_def)
  then show ?thesis by (rule exI [where x = "\<lambda>e. False"])
next
  case (Some v)
  then show ?thesis by (auto simp add: clear_history_def)
qed

lemma do_call_step:
  assumes ok: "admission_ok T s uid atype config"
    and keep: "keeps_config atype [c]" and clk: "clock_monotone T [c]"
  shows "admission_ok (after T c) (do_call s c) uid atype config"
proof (cases c)
  case (Send uid' atype' lvl msg conf meta k)
  then show ?thesis using send_alert_step [OF ok, of k] clk by simp
next
  case (Configure atype' config')
  then have "alert_type_value atype' \<noteq> alert_type_value atype"
    using keep alert_type_value_inj by auto
  then show ?thesis using ok Configure
    by (simp add: admission_ok_def tracked_def rate_list_def update_config_def)
next
  case (Register atype' cb)
  then show ?thesis using ok
    by (simp add: admission_ok_def tracked_def rate_list_def register_callback_def Let_def)
next
  case (Clear u)
  obtain Q where q: "alert_history (clear_history s u) = filter Q (alert_history s)"
    "cooldowns (clear_history s u) = cooldowns s"
    "rate_limits (clear_history s u) = rate_limits s"
    "alert_configs (clear_history s u) = alert_configs s"
    using clear_history_filter by blast
  from ok have cfg: "alert_configs s (alert_type_value atype) = Some config"
    and tr: "tracked_view T (dispatched uid atype (alert_history s))
               (cooldowns s (rate_key uid atype)) (rate_list s (rate_key uid atype))"
    and sp: "spaced (real_of_int (cooldown config)) (dispatched uid atype (alert_history s))"
    and wr: "0 \<le> max_frequency config \<longrightarrow>
               within_rate (max_frequency config) (dispatched uid atype (alert_history s))"
    by (simp_all add: admission_ok_def tracked_def)
  have rl: "rate_list (clear_history s u) (rate_key uid atype) = rate_list s (rate_key uid atype)"
    using q(3) by (simp add: rate_list_def)
  have wr': "0 \<le> max_frequency config \<longrightarrow>
               within_rate (max_frequency config)
                 (filter Q (dispatched uid atype (alert_history s)))"
    using wr within_rate_filter by blast
  show ?thesis
    using Clear cfg tracked_view_filter [OF tr, of Q] spaced_filter [OF sp, of Q] wr' q rl
    by (simp add: admission_ok_def tracked_def dispatched_filter)
qed

lemma clock_monotone_Cons:
  "clock_monotone T (c # cs) \<longleftrightarrow> clock_monotone T [c] \<and> clock_monotone (after T c) cs"
  by (cases c) auto

lemma run_admission_ok:
  "admission_ok T s uid atype config \<Longrightarrow> keeps_config atype cs \<Longrightarrow> clock_monotone T cs \<Longrightarrow>
   \<exists>T'. admission_ok T' (run s cs) uid atype config"
proof (induction cs arbitrary: s T)
  case Nil
  then show ?case by auto
next
  case (Cons c cs)
  from Cons.prems(2) have k: "keeps_config atype [c]" "keeps_config atype cs"
    using keeps_config_Cons by blast+
  from Cons.prems(3) have m: "clock_monotone T [c]" "clock_monotone (after T c) cs"
    using clock_monotone_Cons by blast+
  have "admission_ok (after T c) (do_call s c) uid atype config"
    by (rule do_call_step [OF Cons.prems(1) k(1) m(1)])
  from Cons.IH [OF this k(2) m(2)] show ?case by simp
qed

lemma fresh_admission_ok:
  assumes "fresh s" "alert_configs s (alert_type_value atype) = Some config"
  shows "admission_ok T s uid atype config"
  using assms
  by (simp add: admission_ok_def tracked_def tracked_view_def fresh_def dispatched_def
      spaced_def within_rate_def rate_list_def)

lemma length_filter_mono:
  "(\<And>e. e \<in> set h \<Longrightarrow> P e \<Longrightarrow> Q e) \<Longrightarrow> length (filter P h) \<le> length (filter Q h)"
proof (induction h)
  case Nil
  then show ?case by simp
next
  case (Cons x xs)
  have "length (filter P xs) \<le> length (filter Q xs)"
    by (rule Cons.IH) (simp add: Cons.prems)
  moreover have "P x \<Longrightarrow> Q x" by (rule Cons.prems) simp
  ultimately show ?case by auto
qed

lemma ex_latest:
  "L \<noteq> [] \<Longrightarrow> \<exists>l\<in>set L. \<forall>e\<in>set L. timestamp e \<le> timestamp l"
proof (induction L)
  case Nil
  then show ?case by simp
next
  case (Cons x xs)
  show ?case
  proof (cases "xs = []")
    case True
    then show ?thesis by simp
  next
    case False
    then obtain l where l: "l \<in> set xs" "\<forall>e\<in>set xs. timestamp e \<le> timestamp l"
      using Cons.IH by blast
    show ?thesis
    proof (cases "timestamp x \<le> timestamp l")
      case True
      then have "\<forall>e\<in>set (x # xs). timestamp e \<le> timestamp l" using l(2) by simp
      then show ?thesis using l(1) by (intro bexI [where x = l]) simp_all
    next
      case False
      then have "\<forall>e\<in>set (x # xs). timestamp e \<le> timestamp x" using l(2) by fastforce
      then show ?thesis by (intro bexI [where x = x]) simp_all
    qed
  qed
qed

lemma within_rate_left_closed:
  assumes "within_rate m h"
  shows "int (length (filter (\<lambda>e. a \<le> timestamp e \<and> timestamp e < a + 60) h)) \<le> m"
proof (cases "filter (\<lambda>e. a \<le> timestamp e \<and> timestamp e < a + 60) h = []")
  case True
  have "0 \<le> int (length (filter (\<lambda>e. a < timestamp e \<and> timestamp e \<le> a + 60) h))" by simp
  then have "0 \<le> m" using within_rateD [OF assms, of a] by linarith
  then show ?thesis using True by simp
next
  case False
  then obtain l where l: "l \<in> set (filter (\<lambda>e. a \<le> timestamp e \<and> timestamp e < a + 60) h)"
    and mx: "\<forall>e\<in>set (filter (\<lambda>e. a \<le> timestamp e \<and> timestamp e < a + 60) h).
               timestamp e \<le> timestamp l"
    using ex_latest by blast
  from l have tm: "timestamp l < a + 60" by simp
  have "length (filter (\<lambda>e. a \<le> timestamp e \<and> timestamp e < a + 60) h)
          \<le> length (filter (\<lambda>e. timestamp l - 60 < timestamp e \<and>
                                 timestamp e \<le> timestamp l - 60 + 60) h)"
  proof (rule length_filter_mono)
    fix e assume e: "e \<in> set h" "a \<le> timestamp e \<and> timestamp e < a + 60"
    then have "e \<in> set (filter (\<lambda>e. a \<le> timestamp e \<and> timestamp e < a + 60) h)" by simp
    then have "timestamp e \<le> timestamp l" using mx by blast
    then show "timestamp l - 60 < timestamp e \<and> timestamp e \<le> timestamp l - 60 + 60"
      using tm e(2) by simp
  qed
  then show ?thesis using within_rateD [OF assms, of "timestamp l - 60"] by linarith
qed

text \<open>
  C1: start from a service on which nothing has been dispatched, with a configuration for
  the channel whose \<open>max_frequency\<close> is not negative, and run any sequence of calls
  that does not reconfigure the channel, under a clock that does not run backwards. Then,
  for every user and every window of 60 seconds, open at one end (\<open>(a, a + 60]\<close>, the
  window that \<open>_can_send_alert\<close> keeps at time \<open>a + 60\<close>, or \<open>[a, a + 60)\<close>), the
  number of events dispatched to the user on the channel with a timestamp in the window
  is at most \<open>max_frequency\<close>.
\<close>

theorem rate_limit_never_exceeded:
  assumes "fresh s" and "alert_configs s (alert_type_value atype) = Some config"
    and "0 \<le> max_frequency config" and "keeps_config atype cs" and "clock_monotone T cs"
  shows "int (length (filter (\<lambda>e. a < timestamp e \<and> timestamp e \<le> a + 60)
                 (dispatched uid atype (alert_history (run s cs))))) \<le> max_frequency config \<and>
         int (length (filter (\<lambda>e. a \<le> timestamp e \<and> timestamp e < a + 60)
                 (dispatched uid atype (alert_history (run s cs))))) \<le> max_frequency config"
proof -
  have "admission_ok T s uid atype config"
    by (rule fresh_admission_ok [OF assms(1,2)])
  from run_admission_ok [OF this assms(4,5)]
  have w: "within_rate (max_frequency config) (dispatched uid atype (alert_history (run s cs)))"
    using assms(3) by (auto simp add: admission_ok_def)
  show ?thesis using within_rateD [OF w, of a] within_rate_left_closed [OF w, of a] by simp
qed

theorem rate_limit_never_exceeded_witness:
  "fresh init \<and> alert_configs init (alert_type_value VISUAL) = Some (snd (default_configs ! 0)) \<and>
   0 \<le> max_frequency (snd (default_configs ! 0)) \<and>
   keeps_config VISUAL [Send ''u'' VISUAL HIGH ''peek'' (9 / 10) None (at_time 0),
                        Send ''u'' VISUAL HIGH ''peek'' (9 / 10) None (at_time 4)] \<and>
   clock_monotone 0 [Send ''u'' VISUAL HIGH ''peek'' (9 / 10) None (at_time 0),
                     Send ''u'' VISUAL HIGH ''peek'' (9 / 10) None (at_time 4)] \<and>
   int (length (filter (\<lambda>e. - 1 < timestamp e \<and> timestamp e \<le> - 1 + 60)
          (dispatched ''u'' VISUAL (alert_history
             (run init [Send ''u'' VISUAL HIGH ''peek'' (9 / 10) None (at_time 0),
                        Send ''u'' VISUAL HIGH ''peek'' (9 / 10) None (at_time 4)])))))
     \<le> max_frequency (snd (default_configs ! 0))"
proof -
  have c: "alert_configs init (alert_type_value VISUAL) = Some (snd (default_configs ! 0))"
    by (simp add: init_configs)
  have m: "0 \<le> max_frequency (snd (default_configs ! 0))"
    by (simp add: default_configs_def)
  have k: "keeps_config VISUAL [Send ''u'' VISUAL HIGH ''peek'' (9 / 10) None (at_time 0),
                        Send ''u'' VISUAL HIGH ''peek'' (9 / 10) None (at_time 4)]"
    by simp
  have t: "clock_monotone 0 [Send ''u'' VISUAL HIGH ''peek'' (9 / 10) None (at_time 0),
                     Send ''u'' VISUAL HIGH ''peek'' (9 / 10) None (at_time 4)]"
    by (simp add: clock_ordered_def at_time_def)
  show ?thesis
    using init_fresh c m k t
      rate_limit_never_exceeded [OF init_fresh c m k t, of "- 1" "''u''", THEN conjunct1]
    by (intro conjI)
qed

text \<open>
  The scenario of the specification for the rate limit: with at most 20 per minute and no
  cooldown, twenty dispatches one second apart are admitted, the next one at second 20 is
  rejected, and one at second 60, when the timestamp 0 has left the window, is admitted.
\<close>

lemma rate_limit_scenario:
  "length (alert_history
     (run (update_config init VISUAL
             \<lparr>config_alert_type = VISUAL, enabled = True, threshold = 7 / 10, cooldown = 0,
              max_frequency = 20, custom_message = None\<rparr>)
          (map (\<lambda>i. Send ''u'' VISUAL HIGH ''peek'' (9 / 10) None (at_time (real i))) [0..<20])))
     = 20 \<and>
   \<not> fst (send_alert
     (run (update_config init VISUAL
             \<lparr>config_alert_type = VISUAL, enabled = True, threshold = 7 / 10, cooldown = 0,
              max_frequency = 20, custom_message = None\<rparr>)
          (map (\<lambda>i. Send ''u'' VISUAL HIGH ''peek'' (9 / 10) None (at_time (real i))) [0..<20]))
     ''u'' VISUAL HIGH ''peek'' (9 / 10) None (at_time 20)) \<and>
   fst (send_alert
     (run (update_config init VISUAL
             \<lparr>config_alert_type = VISUAL, enabled = True, threshold = 7 / 10, cooldown = 0,
              max_frequency = 20, custom_message = None\<rparr>)
          (map (\<lambda>i. Send ''u'' VISUAL HIGH ''peek'' (9 / 10) None (at_time (real i))) [0..<20]
           @ [Send ''u'' VISUAL HIGH ''peek'' (9 / 10) None (at_time 20)]))
     ''u'' VISUAL HIGH ''peek'' (9 / 10) None (at_time 60))"
  by (simp add: upt_rec update_config_def init_def default_configs_def send_alert_def
      can_send_alert_def Let_def update_rate_limits_def at_time_def rate_key_def)

text \<open>
  The bound is about windows open at one end: a dispatch exactly 60 seconds after another
  is outside the window of \<open>_can_send_alert\<close>, so with at most 1 per minute two events
  can lie in a closed interval of length 60.
\<close>

lemma closed_window_boundary:
  "map timestamp (alert_history
     (run (update_config init VISUAL
             \<lparr>config_alert_type = VISUAL, enabled = True, threshold = 7 / 10, cooldown = 0,
              max_frequency = 1, custom_message = None\<rparr>)
          [Send ''u'' VISUAL HIGH ''peek'' (9 / 10) None (at_time 0),
           Send ''u'' VISUAL HIGH ''peek'' (9 / 10) None (at_time 60)])) = [0, 60]"
  by (simp add: update_config_def init_def default_configs_def send_alert_def
      can_send_alert_def Let_def update_rate_limits_def at_time_def rate_key_def)

lemma spacing_run:
  assumes "fresh s" and "alert_configs s (alert_type_value atype) = Some config"
    and "keeps_config atype cs" and "clock_monotone T cs"
    and "i < j" and "j < length (dispatched uid atype (alert_history (run s cs)))"
  shows "real_of_int (cooldown config)
           \<le> timestamp (dispatched uid atype (alert_history (run s cs)) ! j)
             - timestamp (dispatched uid atype (alert_history (run s cs)) ! i)"
proof -
  have "admission_ok T s uid atype config"
    by (rule fresh_admission_ok [OF assms(1,2)])
  from run_admission_ok [OF this assms(3,4)]
  have "spaced (real_of_int (cooldown config)) (dispatched uid atype (alert_history (run s cs)))"
    by (auto simp add: admission_ok_def)
  then show ?thesis using assms(5,6) by (simp add: spaced_def sorted_wrt_iff_nth_less)
qed

lemma cooldown_recorded:
  "fst (send_alert s uid atype lvl msg conf meta clk) \<Longrightarrow>
   cooldowns (fst (snd (send_alert s uid atype lvl msg conf meta clk))) (rate_key uid atype)
     = Some (update_time clk)"
  using send_alert_accepted [of s uid atype lvl msg conf meta clk] by auto

lemma cooldown_kept:
  assumes "\<not> fst (send_alert s uid' atype' lvl msg conf meta clk) \<or> uid' \<noteq> uid \<or> atype' \<noteq> atype"
  shows "cooldowns (fst (snd (send_alert s uid' atype' lvl msg conf meta clk))) (rate_key uid atype)
     = cooldowns s (rate_key uid atype)"
proof (cases "fst (send_alert s uid' atype' lvl msg conf meta clk)")
  case False
  then show ?thesis by (simp add: send_alert_rejected(2))
next
  case True
  then have "rate_key uid' atype' \<noteq> rate_key uid atype" using assms rate_key_inj by blast
  then show ?thesis using send_alert_accepted [OF True] by auto
qed

lemma within_cooldown_rejected:
  "alert_configs s (alert_type_value atype) = Some config \<Longrightarrow>
   cooldowns s (rate_key uid atype) = Some sent \<Longrightarrow>
   can_send_time clk - sent < real_of_int (cooldown config) \<Longrightarrow>
   send_alert s uid atype lvl msg conf meta clk = (False, s, [Log_debug])"
  by (simp add: send_alert_def can_send_alert_def)

text \<open>
  C2: under the same conditions, any two events dispatched to one user on one channel
  have timestamps at least \<open>cooldown\<close> apart. An admitted \<open>send_alert\<close> records its last
  clock reading in \<open>cooldowns\<close> under the key of the user and channel, and no rejected
  call and no call for another user or channel changes that entry; a call for the same
  user and channel whose clock reading is less than \<open>cooldown\<close> after the entry returns
  false and changes nothing. With the default visual configuration (threshold 0.7,
  cooldown 3, at most 20 per minute): confidence 0.8 at time 0 is admitted, confidence
  0.9 at time 1 is rejected, confidence 0.9 at time 4 is admitted.
\<close>

theorem cooldown_between_dispatches:
  "(fresh s \<longrightarrow> alert_configs s (alert_type_value atype) = Some config \<longrightarrow>
    keeps_config atype cs \<longrightarrow> clock_monotone T cs \<longrightarrow>
    i < j \<longrightarrow> j < length (dispatched uid atype (alert_history (run s cs))) \<longrightarrow>
      real_of_int (cooldown config)
        \<le> timestamp (dispatched uid atype (alert_history (run s cs)) ! j)
          - timestamp (dispatched uid atype (alert_history (run s cs)) ! i)) \<and>
   (fst (send_alert s1 uid atype lvl msg conf meta clk) \<longrightarrow>
      cooldowns (fst (snd (send_alert s1 uid atype lvl msg conf meta clk))) (rate_key uid atype)
        = Some (update_time clk)) \<and>
   (\<not> fst (send_alert s1 uid' atype' lvl msg conf meta clk) \<or> uid' \<noteq> uid \<or> atype' \<noteq> atype \<longrightarrow>
      cooldowns (fst (snd (send_alert s1 uid' atype' lvl msg conf meta clk))) (rate_key uid atype)
        = cooldowns s1 (rate_key uid atype)) \<and>
   (alert_configs s1 (alert_type_value atype) = Some config1 \<longrightarrow>
    cooldowns s1 (rate_key uid atype) = Some sent \<longrightarrow>
    can_send_time clk - sent < real_of_int (cooldown config1) \<longrightarrow>
      send_alert s1 uid atype lvl msg conf meta clk = (False, s1, [Log_debug])) \<and>
   alert_configs init ''visual'' =
     Some \<lparr>config_alert_type = VISUAL, enabled = True, threshold = 7 / 10, cooldown = 3,
           max_frequency = 20, custom_message = None\<rparr> \<and>
   fst (send_alert init ''u'' VISUAL HIGH ''peek'' (8 / 10) None (at_time 0)) \<and>
   \<not> fst (send_alert (run init [Send ''u'' VISUAL HIGH ''peek'' (8 / 10) None (at_time 0)])
           ''u'' VISUAL HIGH ''peek'' (9 / 10) None (at_time 1)) \<and>
   fst (send_alert (run init [Send ''u'' VISUAL HIGH ''peek'' (8 / 10) None (at_time 0),
                              Send ''u'' VISUAL HIGH ''peek'' (9 / 10) None (at_time 1)])
           ''u'' VISUAL HIGH ''peek'' (9 / 10) None (at_time 4))"
proof (intro conjI impI)
  assume "fresh s" "alert_configs s (alert_type_value atype) = Some config"
    "keeps_config atype cs" "clock_monotone T cs" "i < j"
    "j < length (dispatched uid atype (alert_history (run s cs)))"
  then show "real_of_int (cooldown config)
        \<le> timestamp (dispatched uid atype (alert_history (run s cs)) ! j)
          - timestamp (dispatched uid atype (alert_history (run s cs)) ! i)"
    by (rule spacing_run)
next
  assume "fst (send_alert s1 uid atype lvl msg conf meta clk)"
  then show "cooldowns (fst (snd (send_alert s1 uid atype lvl msg conf meta clk)))
      (rate_key uid atype) = Some (update_time clk)"
    by (rule cooldown_recorded)
next
  assume "\<not> fst (send_alert s1 uid' atype' lvl msg conf meta clk) \<or> uid' \<noteq> uid \<or> atype' \<noteq> atype"
  then show "cooldowns (fst (snd (send_alert s1 uid' atype' lvl msg conf meta clk)))
      (rate_key uid atype) = cooldowns s1 (rate_key uid atype)"
    by (rule cooldown_kept)
next
  assume "alert_configs s1 (alert_type_value atype) = Some config1"
    "cooldowns s1 (rate_key uid atype) = Some sent"
    "can_send_time clk - sent < real_of_int (cooldown config1)"
  then show "send_alert s1 uid atype lvl msg conf meta clk = (False, s1, [Log_debug])"
    by (rule within_cooldown_rejected)
next
  show "alert_configs init ''visual'' =
     Some \<lparr>config_alert_type = VISUAL, enabled = True, threshold = 7 / 10, cooldown = 3,
           max_frequency = 20, custom_message = None\<rparr>"
    by (simp add: init_def default_configs_def)
next
  show "fst (send_alert init ''u'' VISUAL HIGH ''peek'' (8 / 10) None (at_time 0))"
    by (simp add: init_def default_configs_def send_alert_def can_send_alert_def Let_def
        update_rate_limits_def at_time_def rate_key_def)
next
  show "\<not> fst (send_alert (run init [Send ''u'' VISUAL HIGH ''peek'' (8 / 10) None (at_time 0)])
           ''u'' VISUAL HIGH ''peek'' (9 / 10) None (at_time 1))"
    by (simp add: init_def default_configs_def send_alert_def can_send_alert_def Let_def
        update_rate_limits_def at_time_def rate_key_def)
next
  show "fst (send_alert (run init [Send ''u'' VISUAL HIGH ''peek'' (8 / 10) None (at_time 0),
                              Send ''u'' VISUAL HIGH ''peek'' (9 / 10) None (at_time 1)])
           ''u'' VISUAL HIGH ''peek'' (9 / 10) None (at_time 4))"
    by (simp add: init_def default_configs_def send_alert_def can_send_alert_def Let_def
        update_rate_limits_def at_time_def rate_key_def)
qed

theorem cooldown_between_dispatches_witness:
  "fresh init \<and>
   alert_configs init (alert_type_value VISUAL) = Some (snd (default_configs ! 0)) \<and>
   keeps_config VISUAL [Send ''u'' VISUAL HIGH ''peek'' (8 / 10) None (at_time 0),
                        Send ''u'' VISUAL HIGH ''peek'' (9 / 10) None (at_time 1),
                        Send ''u'' VISUAL HIGH ''peek'' (9 / 10) None (at_time 4)] \<and>
   clock_monotone 0 [Send ''u'' VISUAL HIGH ''peek'' (8 / 10) None (at_time 0),
                     Send ''u'' VISUAL HIGH ''peek'' (9 / 10) None (at_time 1),
                     Send ''u'' VISUAL HIGH ''peek'' (9 / 10) None (at_time 4)] \<and>
   (0 :: nat) < 1 \<and>
   1 < length (dispatched ''u'' VISUAL (alert_history
         (run init [Send ''u'' VISUAL HIGH ''peek'' (8 / 10) None (at_time 0),
                    Send ''u'' VISUAL HIGH ''peek'' (9 / 10) None (at_time 1),
                    Send ''u'' VISUAL HIGH ''peek'' (9 / 10) None (at_time 4)]))) \<and>
   real_of_int (cooldown (snd (default_configs ! 0)))
     \<le> timestamp (dispatched ''u'' VISUAL (alert_history
         (run init [Send ''u'' VISUAL HIGH ''peek'' (8 / 10) None (at_time 0),
                    Send ''u'' VISUAL HIGH ''peek'' (9 / 10) None (at_time 1),
                    Send ''u'' VISUAL HIGH ''peek'' (9 / 10) None (at_time 4)])) ! 1)
       - timestamp (dispatched ''u'' VISUAL (alert_history
         (run init [Send ''u'' VISUAL HIGH ''peek'' (8 / 10) None (at_time 0),
                    Send ''u'' VISUAL HIGH ''peek'' (9 / 10) None (at_time 1),
                    Send ''u'' VISUAL HIGH ''peek'' (9 / 10) None (at_time 4)])) ! 0) \<and>
   cooldowns (run init [Send ''u'' VISUAL HIGH ''peek'' (8 / 10) None (at_time 0)])
     (rate_key ''u'' VISUAL) = Some 0 \<and>
   can_send_time (at_time 1) - 0 < real_of_int (cooldown (snd (default_configs ! 0))) \<and>
   \<not> fst (send_alert (run init [Send ''u'' VISUAL HIGH ''peek'' (8 / 10) None (at_time 0)])
           ''u'' VISUAL HIGH ''peek'' (9 / 10) None (at_time 1))"
proof -
  let ?cs = "[Send ''u'' VISUAL HIGH ''peek'' (8 / 10) None (at_time 0),
              Send ''u'' VISUAL HIGH ''peek'' (9 / 10) None (at_time 1),
              Send ''u'' VISUAL HIGH ''peek'' (9 / 10) None (at_time 4)]"
  let ?s1 = "run init [Send ''u'' VISUAL HIGH ''peek'' (8 / 10) None (at_time 0)]"
  have c: "alert_configs init (alert_type_value VISUAL) = Some (snd (default_configs ! 0))"
    by (simp add: init_configs)
  have k: "keeps_config VISUAL ?cs" by simp
  have t: "clock_monotone 0 ?cs" by (simp add: clock_ordered_def at_time_def)
  have l: "1 < length (dispatched ''u'' VISUAL (alert_history (run init ?cs)))"
    by (simp add: init_def default_configs_def send_alert_def can_send_alert_def Let_def
        update_rate_limits_def at_time_def rate_key_def dispatched_def)
  have c1: "alert_configs ?s1 (alert_type_value VISUAL) = Some (snd (default_configs ! 0))"
    using c by (simp add: send_alert_configs)
  have d: "cooldowns ?s1 (rate_key ''u'' VISUAL) = Some 0"
    by (simp add: init_def default_configs_def send_alert_def can_send_alert_def Let_def
        update_rate_limits_def at_time_def rate_key_def)
  have e: "can_send_time (at_time 1) - 0 < real_of_int (cooldown (snd (default_configs ! 0)))"
    by (simp add: at_time_def default_configs_def)
  have z: "(0 :: nat) < 1" by simp
  note inst = cooldown_between_dispatches
        [of init VISUAL "snd (default_configs ! 0)" ?cs 0 0 1 "''u''" ?s1 HIGH "''peek''"
            "9 / 10" None "at_time 1" "''u''" VISUAL "snd (default_configs ! 0)" 0]
  have A: "real_of_int (cooldown (snd (default_configs ! 0)))
     \<le> timestamp (dispatched ''u'' VISUAL (alert_history (run init ?cs)) ! 1)
       - timestamp (dispatched ''u'' VISUAL (alert_history (run init ?cs)) ! 0)"
    using inst [THEN conjunct1] init_fresh c k t z l by blast
  have "send_alert ?s1 ''u'' VISUAL HIGH ''peek'' (9 / 10) None (at_time 1)
          = (False, ?s1, [Log_debug])"
    using inst [THEN conjunct2, THEN conjunct2, THEN conjunct2, THEN conjunct1] c1 d e by blast
  then have D: "\<not> fst (send_alert ?s1 ''u'' VISUAL HIGH ''peek'' (9 / 10) None (at_time 1))"
    by (simp only: fst_conv not_False_eq_True)
  show ?thesis
    using init_fresh c k t z l A d e D by (intro conjI)
qed

section \<open>Properties of the gaze classifier\<close>

lemma process_faces_mono:
  "process_faces fs (p, a, m) = (p', a', m') \<Longrightarrow>
   (p \<longrightarrow> p') \<and> m \<le> m' \<and>
   (\<forall>f\<in>set fs. is_looking_at_screen (estimate_gaze_direction f) \<longrightarrow>
      p' \<and> face_confidence f \<le> m')"
proof (induction fs arbitrary: p a m)
  case Nil
  then show ?case by simp
next
  case (Cons f fs)
  show ?case
  proof (cases "is_looking_at_screen (estimate_gaze_direction f)")
    case True
    with Cons.prems
    have "process_faces fs (True, a @ [estimate_gaze_direction f], max m (face_confidence f))
            = (p', a', m')"
      by (simp add: Let_def)
    from Cons.IH [OF this] True show ?thesis by auto
  next
    case False
    with Cons.prems
    have "process_faces fs (p, a @ [estimate_gaze_direction f], m) = (p', a', m')"
      by (simp add: Let_def)
    from Cons.IH [OF this] False show ?thesis by auto
  qed
qed

text \<open>
  C5 as stated fails: a face whose gaze estimation fails gets the angles (0,0), and the
  classifier takes (0,0) as looking at the screen, so \<open>process_frame\<close> reports
  peeking for a frame with one such face.
\<close>

theorem failed_estimate_is_peeking:
  "estimate_gaze_direction \<lparr>face_confidence = 9 / 10, face_gaze = No_estimate\<rparr> = (0, 0) \<and>
   is_looking_at_screen (0, 0) \<and>
   is_peeking (process_frame [\<lparr>face_confidence = 9 / 10, face_gaze = No_estimate\<rparr>] 0)"
  by (simp add: is_looking_at_screen_def process_frame_def Let_def)

text \<open>
  C5 as amended: the classifier is a function of the angles alone; a face on which gaze
  estimation fails is treated as angles (0,0), which the classifier evaluates to looking
  at the screen; so \<open>process_frame\<close> reports peeking for every frame that contains such
  a face, with a confidence of at least that face's detection confidence.
\<close>

theorem failed_estimate_counts_as_looking:
  "face_gaze f = No_estimate \<Longrightarrow> f \<in> set faces \<Longrightarrow>
   estimate_gaze_direction f = (0, 0) \<and> is_looking_at_screen (0, 0) \<and>
   is_peeking (process_frame faces now) \<and>
   face_confidence f \<le> result_confidence (process_frame faces now)"
proof -
  assume n: "face_gaze f = No_estimate" and m: "f \<in> set faces"
  have e: "estimate_gaze_direction f = (0, 0)" using n by simp
  have l: "is_looking_at_screen (0, 0)" by (simp add: is_looking_at_screen_def)
  obtain p a c where r: "process_faces faces (False, [], 0) = (p, a, c)"
    by (cases "process_faces faces (False, [], 0)") auto
  from process_faces_mono [OF r] m e l have "p" "face_confidence f \<le> c" by auto
  then show ?thesis using e l r by (simp add: process_frame_def)
qed

theorem failed_estimate_counts_as_looking_witness:
  "face_gaze \<lparr>face_confidence = 4 / 5, face_gaze = No_estimate\<rparr> = No_estimate \<and>
   \<lparr>face_confidence = 4 / 5, face_gaze = No_estimate\<rparr>
     \<in> set [\<lparr>face_confidence = 1 / 2, face_gaze = Head_pose 40 0\<rparr>,
            \<lparr>face_confidence = 4 / 5, face_gaze = No_estimate\<rparr>] \<and>
   is_peeking (process_frame [\<lparr>face_confidence = 1 / 2, face_gaze = Head_pose 40 0\<rparr>,
                              \<lparr>face_confidence = 4 / 5, face_gaze = No_estimate\<rparr>] 0) \<and>
   4 / 5 \<le> result_confidence
              (process_frame [\<lparr>face_confidence = 1 / 2, face_gaze = Head_pose 40 0\<rparr>,
                              \<lparr>face_confidence = 4 / 5, face_gaze = No_estimate\<rparr>] 0)"
  using failed_estimate_counts_as_looking
    [of "\<lparr>face_confidence = 4 / 5, face_gaze = No_estimate\<rparr>"
        "[\<lparr>face_confidence = 1 / 2, face_gaze = Head_pose 40 0\<rparr>,
          \<lparr>face_confidence = 4 / 5, face_gaze = No_estimate\<rparr>]" 0]
  by simp

section \<open>Properties of the detection sessions\<close>

subsection \<open>The task map without loop faults\<close>

lemma registry_exactD1:
  "registry_exact m \<Longrightarrow> detection_tasks m uid = Some h \<Longrightarrow>
   h < length (tasks m) \<and> owner (tasks m ! h) = uid \<and> status (tasks m ! h) = Running"
  by (simp add: registry_exact_def)

lemma registry_exactD2:
  "registry_exact m \<Longrightarrow> h < length (tasks m) \<Longrightarrow> status (tasks m ! h) = Running \<Longrightarrow>
   detection_tasks m (owner (tasks m ! h)) = Some h"
  by (simp add: registry_exact_def)

lemma registry_exact_accurate:
  assumes "registry_exact m"
  shows "registry_accurate m uid"
proof -
  let ?S = "{i. i < length (tasks m) \<and> owner (tasks m ! i) = uid \<and> status (tasks m ! i) = Running}"
  have len: "active_loops m uid = card ?S"
    unfolding active_loops_def by (rule length_filter_conv_card)
  show ?thesis
  proof (cases "detection_tasks m uid")
    case None
    have "?S = {}"
    proof (rule ccontr)
      assume "?S \<noteq> {}"
      then obtain i where "i < length (tasks m)" "owner (tasks m ! i) = uid"
        "status (tasks m ! i) = Running" by blast
      then have "detection_tasks m uid = Some i" using registry_exactD2 [OF assms] by blast
      then show False using None by simp
    qed
    then show ?thesis using len None by (simp add: registry_accurate_def)
  next
    case (Some h)
    have h: "h < length (tasks m)" "owner (tasks m ! h) = uid" "status (tasks m ! h) = Running"
      using registry_exactD1 [OF assms Some] by simp_all
    have "?S = {h}"
    proof
      show "?S \<subseteq> {h}"
      proof
        fix i assume "i \<in> ?S"
        then have "detection_tasks m uid = Some i" using registry_exactD2 [OF assms] by blast
        then show "i \<in> {h}" using Some by simp
      qed
      show "{h} \<subseteq> ?S" using h by simp
    qed
    then show ?thesis using len Some by (simp add: registry_accurate_def)
  qed
qed

lemma registry_exactI:
  assumes "\<And>uid h. detection_tasks m uid = Some h \<Longrightarrow>
        h < length (tasks m) \<and> owner (tasks m ! h) = uid \<and> status (tasks m ! h) = Running"
    and "\<And>h. h < length (tasks m) \<Longrightarrow> status (tasks m ! h) = Running \<Longrightarrow>
        detection_tasks m (owner (tasks m ! h)) = Some h"
  shows "registry_exact m"
  using assms by (simp add: registry_exact_def)

lemma registry_exact_start:
  assumes "registry_exact m"
  shows "registry_exact (start_continuous_detection m uid)"
proof (cases "detection_tasks m uid")
  case (Some h)
  then show ?thesis using assms by (simp add: start_continuous_detection_def)
next
  case None
  let ?m' = "start_continuous_detection m uid"
  have t: "tasks ?m' = tasks m @ [\<lparr>owner = uid, status = Running\<rparr>]"
    and d: "detection_tasks ?m' = (detection_tasks m)(uid \<mapsto> length (tasks m))"
    using None by (simp_all add: start_continuous_detection_def)
  show ?thesis
  proof (rule registry_exactI)
    fix u h assume a: "detection_tasks ?m' u = Some h"
    show "h < length (tasks ?m') \<and> owner (tasks ?m' ! h) = u \<and> status (tasks ?m' ! h) = Running"
    proof (cases "u = uid")
      case True
      then have "h = length (tasks m)" using a d by simp
      then show ?thesis using True t by simp
    next
      case False
      then have "detection_tasks m u = Some h" using a d by simp
      from registry_exactD1 [OF assms this] show ?thesis using t by (simp add: nth_append)
    qed
  next
    fix h assume a: "h < length (tasks ?m')" "status (tasks ?m' ! h) = Running"
    show "detection_tasks ?m' (owner (tasks ?m' ! h)) = Some h"
    proof (cases "h < length (tasks m)")
      case True
      then have r: "status (tasks m ! h) = Running" "tasks ?m' ! h = tasks m ! h"
        using a(2) t by (simp_all add: nth_append)
      have e: "detection_tasks m (owner (tasks m ! h)) = Some h"
        by (rule registry_exactD2 [OF assms True r(1)])
      then have "owner (tasks m ! h) \<noteq> uid" using None by auto
      then show ?thesis using e r(2) d by simp
    next
      case False
      then have "h = length (tasks m)" using a(1) t by simp
      then show ?thesis using t d by simp
    qed
  qed
qed

lemma registry_exact_unregister:
  assumes "registry_exact m" "detection_tasks m uid = Some h"
  shows "registry_exact (m\<lparr>tasks := cancel (tasks m) h,
                           detection_tasks := (detection_tasks m)(uid := None)\<rparr>)"
proof -
  let ?m' = "m\<lparr>tasks := cancel (tasks m) h, detection_tasks := (detection_tasks m)(uid := None)\<rparr>"
  have h: "h < length (tasks m)" "owner (tasks m ! h) = uid" "status (tasks m ! h) = Running"
    using registry_exactD1 [OF assms] by simp_all
  have t: "tasks ?m' = (tasks m)[h := (tasks m ! h)\<lparr>status := Cancel_requested\<rparr>]"
    using h by (simp add: cancel_def)
  show ?thesis
  proof (rule registry_exactI)
    fix u g assume a: "detection_tasks ?m' u = Some g"
    then have u: "u \<noteq> uid" and g: "detection_tasks m u = Some g" by (auto split: if_splits)
    from registry_exactD1 [OF assms(1) g]
    have g': "g < length (tasks m)" "owner (tasks m ! g) = u" "status (tasks m ! g) = Running"
      by simp_all
    then have "g \<noteq> h" using h(2) u by auto
    then show "g < length (tasks ?m') \<and> owner (tasks ?m' ! g) = u \<and> status (tasks ?m' ! g) = Running"
      using g' t by simp
  next
    fix g assume a: "g < length (tasks ?m')" "status (tasks ?m' ! g) = Running"
    have gh: "g \<noteq> h"
    proof
      assume "g = h"
      then show False using a h(1) t by simp
    qed
    then have r: "g < length (tasks m)" "status (tasks m ! g) = Running"
      "tasks ?m' ! g = tasks m ! g"
      using a t by simp_all
    have e: "detection_tasks m (owner (tasks m ! g)) = Some g"
      by (rule registry_exactD2 [OF assms(1) r(1,2)])
    then have "owner (tasks m ! g) \<noteq> uid" using assms(2) gh by auto
    then show "detection_tasks ?m' (owner (tasks ?m' ! g)) = Some g" using e r(3) by simp
  qed
qed

lemma registry_exact_connections:
  "registry_exact (m\<lparr>active_connections := c\<rparr>) = registry_exact m"
  by (simp add: registry_exact_def)

lemma registry_exact_stop:
  assumes "registry_exact m"
  shows "registry_exact (snd (stop_detection m uid))"
proof (cases "detection_tasks m uid")
  case None
  then show ?thesis using assms by (simp add: stop_detection_def)
next
  case (Some h)
  then show ?thesis using registry_exact_unregister [OF assms Some]
    by (simp add: stop_detection_def)
qed

lemma registry_exact_disconnect:
  assumes "registry_exact m"
  shows "registry_exact (disconnect m uid)"
proof -
  let ?m1 = "m\<lparr>active_connections := (active_connections m)(uid := None)\<rparr>"
  have 1: "registry_exact ?m1" using assms by (simp add: registry_exact_connections)
  show ?thesis
  proof (cases "detection_tasks m uid")
    case None
    then show ?thesis using 1 by (simp add: disconnect_def)
  next
    case (Some h)
    then have "detection_tasks ?m1 uid = Some h" by simp
    from registry_exact_unregister [OF 1 this] Some show ?thesis
      by (simp add: disconnect_def)
  qed
qed

lemma registry_exact_loop:
  assumes "registry_exact m"
  shows "registry_exact (detection_loop m h (Slept now outcome))"
proof (cases "h \<ge> length (tasks m) \<or> status (tasks m ! h) = Finished")
  case True
  then show ?thesis using assms by (auto simp add: detection_loop_def)
next
  case False
  then have h: "h < length (tasks m)" "status (tasks m ! h) \<noteq> Finished" by auto
  show ?thesis
  proof (cases "status (tasks m ! h) = Cancel_requested")
    case False
    have "registry_exact (send_detection_update m uid f outcome)" for uid f
      using assms
      by (simp add: send_detection_update_def registry_exact_def
          split: option.splits send_outcome.splits)
    then show ?thesis using False h by (simp add: detection_loop_def)
  next
    case True
    let ?m' = "m\<lparr>tasks := finish (tasks m) h\<rparr>"
    have t: "tasks ?m' = (tasks m)[h := (tasks m ! h)\<lparr>status := Finished\<rparr>]"
      by (simp add: finish_def)
    have "registry_exact ?m'"
    proof (rule registry_exactI)
      fix u g assume a: "detection_tasks ?m' u = Some g"
      then have g: "detection_tasks m u = Some g" by simp
      from registry_exactD1 [OF assms g]
      have g': "g < length (tasks m)" "owner (tasks m ! g) = u" "status (tasks m ! g) = Running"
        by simp_all
      then have "g \<noteq> h" using True by auto
      then show "g < length (tasks ?m') \<and> owner (tasks ?m' ! g) = u \<and>
                 status (tasks ?m' ! g) = Running"
        using g' t by simp
    next
      fix g assume a: "g < length (tasks ?m')" "status (tasks ?m' ! g) = Running"
      have gh: "g \<noteq> h"
      proof
        assume "g = h"
        then show False using a h(1) t by simp
      qed
      then have r: "g < length (tasks m)" "status (tasks m ! g) = Running"
        "tasks ?m' ! g = tasks m ! g"
        using a t by simp_all
      have "detection_tasks m (owner (tasks m ! g)) = Some g"
        by (rule registry_exactD2 [OF assms r(1,2)])
      then show "detection_tasks ?m' (owner (tasks ?m' ! g)) = Some g" using r(3) by simp
    qed
    then show ?thesis using True h by (simp add: detection_loop_def)
  qed
qed

lemma registry_exact_call:
  "registry_exact m \<Longrightarrow> orderly c \<Longrightarrow> registry_exact (do_session_call m c)"
proof (cases c)
  case (Connect w u)
  assume "registry_exact m"
  then show ?thesis using Connect by (simp add: connect_def registry_exact_connections)
next
  case (Disconnect u)
  assume "registry_exact m"
  then show ?thesis using Disconnect by (simp add: registry_exact_disconnect)
next
  case (Start u)
  assume "registry_exact m"
  then show ?thesis using Start by (simp add: registry_exact_start)
next
  case (Stop u)
  assume "registry_exact m"
  then show ?thesis using Stop by (simp add: registry_exact_stop)
next
  case (Loop h it)
  assume m: "registry_exact m" and o: "orderly c"
  from o Loop obtain now outcome where "it = Slept now outcome" by (cases it) auto
  then show ?thesis using Loop m by (simp add: registry_exact_loop)
qed

lemma registry_exact_run:
  "registry_exact m \<Longrightarrow> list_all orderly cs \<Longrightarrow> registry_exact (run_sessions m cs)"
  by (induction cs arbitrary: m) (simp_all add: registry_exact_call)

lemma registry_exact_manager: "registry_exact manager"
  by (simp add: registry_exact_def manager_def)

subsection \<open>Loop faults, starting and stopping\<close>

text \<open>
  C6 as stated fails. A user connects and starts detection, and the first iteration of
  the loop raises an unexpected error: no frame has been sent, the finished task is still
  in the task map, and a further start leaves the user without a running loop.
\<close>

theorem loop_fault_leaves_task_registered:
  "sent_frames (detection_loop (start_continuous_detection (connect manager 7 ''u'') ''u'') 0
      Unexpected_error) = [] \<and>
   detection_tasks (detection_loop (start_continuous_detection (connect manager 7 ''u'') ''u'') 0
      Unexpected_error) ''u'' = Some 0 \<and>
   status (tasks (detection_loop (start_continuous_detection (connect manager 7 ''u'') ''u'') 0
      Unexpected_error) ! 0) = Finished \<and>
   active_loops
     (start_continuous_detection
        (detection_loop (start_continuous_detection (connect manager 7 ''u'') ''u'') 0
           Unexpected_error) ''u'') ''u'' = 0"
  by (simp add: detection_loop_def start_continuous_detection_def connect_def manager_def
      finish_def active_loops_def)

text \<open>
  C6 as amended: when the body of a running loop raises an unexpected error, the loop
  logs the error and its task ends; it sends no frame, and the connections stay as they
  are.
\<close>

theorem loop_fault_logs_and_ends:
  "h < length (tasks m) \<Longrightarrow> status (tasks m ! h) = Running \<Longrightarrow>
   sent_frames (detection_loop m h Unexpected_error) = sent_frames m \<and>
   active_connections (detection_loop m h Unexpected_error) = active_connections m \<and>
   status (tasks (detection_loop m h Unexpected_error) ! h) = Finished \<and>
   errors_logged (detection_loop m h Unexpected_error) = errors_logged m + 1"
  by (simp add: detection_loop_def finish_def)

theorem loop_fault_logs_and_ends_witness:
  "0 < length (tasks (start_continuous_detection manager ''u'')) \<and>
   status (tasks (start_continuous_detection manager ''u'') ! 0) = Running \<and>
   sent_frames (detection_loop (start_continuous_detection manager ''u'') 0 Unexpected_error) = [] \<and>
   status (tasks (detection_loop (start_continuous_detection manager ''u'') 0 Unexpected_error) ! 0)
     = Finished \<and>
   errors_logged (detection_loop (start_continuous_detection manager ''u'') 0 Unexpected_error) = 1"
proof -
  have l: "0 < length (tasks (start_continuous_detection manager ''u''))"
    by (simp add: start_continuous_detection_def manager_def)
  have r: "status (tasks (start_continuous_detection manager ''u'') ! 0) = Running"
    by (simp add: start_continuous_detection_def manager_def)
  have s: "sent_frames (start_continuous_detection manager ''u'') = []"
    "errors_logged (start_continuous_detection manager ''u'') = 0"
    by (simp_all add: start_continuous_detection_def manager_def)
  show ?thesis using l r s loop_fault_logs_and_ends [OF l r] by simp
qed

text \<open>
  What the code achieves of idempotence: a second \<open>start_continuous_detection\<close> in a
  row changes nothing, since the first one registered a task; where the task map was
  accurate for the user before, the user has exactly one running loop after the two
  calls. The task map is accurate in every state that the manager reaches through
  connects, disconnects, starts, stops and loop iterations in which no loop body raised an
  error. \<open>stop_detection\<close> always answers with success, and a second one in a row
  changes nothing.
\<close>

lemma start_stop_idempotent:
  "start_continuous_detection (start_continuous_detection m uid) uid
     = start_continuous_detection m uid \<and>
   detection_tasks (start_continuous_detection m uid) uid \<noteq> None \<and>
   (registry_accurate m uid \<longrightarrow>
      active_loops (start_continuous_detection (start_continuous_detection m uid) uid) uid = 1) \<and>
   (list_all orderly cs \<longrightarrow> registry_accurate (run_sessions manager cs) uid) \<and>
   fst (stop_detection m uid) = Detection_stopped uid True \<and>
   stop_detection (snd (stop_detection m uid)) uid
     = (Detection_stopped uid True, snd (stop_detection m uid))"
proof (intro conjI impI)
  show "start_continuous_detection (start_continuous_detection m uid) uid
     = start_continuous_detection m uid"
    by (simp add: start_continuous_detection_def split: option.splits)
  show "detection_tasks (start_continuous_detection m uid) uid \<noteq> None"
    by (simp add: start_continuous_detection_def split: option.splits)
  show "fst (stop_detection m uid) = Detection_stopped uid True"
    by (simp add: stop_detection_def split: option.splits)
  show "stop_detection (snd (stop_detection m uid)) uid
     = (Detection_stopped uid True, snd (stop_detection m uid))"
    by (simp add: stop_detection_def split: option.splits)
next
  assume "registry_accurate m uid"
  then show "active_loops (start_continuous_detection (start_continuous_detection m uid) uid) uid
      = 1"
    by (auto simp add: registry_accurate_def active_loops_def start_continuous_detection_def
        split: option.splits)
next
  assume "list_all orderly cs"
  then have "registry_exact (run_sessions manager cs)"
    by (rule registry_exact_run [OF registry_exact_manager])
  then show "registry_accurate (run_sessions manager cs) uid"
    by (rule registry_exact_accurate)
qed

lemma start_stop_idempotent_example:
  "list_all orderly [Connect 7 ''u'', Start ''u'', Loop 0 (Slept 1 Sent), Stop ''u''] \<and>
   registry_accurate
     (run_sessions manager [Connect 7 ''u'', Start ''u'', Loop 0 (Slept 1 Sent), Stop ''u''])
     ''u'' \<and>
   active_loops
     (start_continuous_detection
        (start_continuous_detection
           (run_sessions manager [Connect 7 ''u'', Start ''u'', Loop 0 (Slept 1 Sent), Stop ''u''])
           ''u'') ''u'') ''u'' = 1"
proof -
  let ?cs = "[Connect 7 ''u'', Start ''u'', Loop 0 (Slept 1 Sent), Stop ''u'']"
  note inst = start_stop_idempotent [of "run_sessions manager ?cs" "''u''" ?cs]
  have o: "list_all orderly ?cs" by simp
  have r: "registry_accurate (run_sessions manager ?cs) ''u''"
    using inst [THEN conjunct2, THEN conjunct2, THEN conjunct2, THEN conjunct1] o by blast
  have a: "active_loops
     (start_continuous_detection (start_continuous_detection (run_sessions manager ?cs) ''u'')
        ''u'') ''u'' = 1"
    using inst [THEN conjunct2, THEN conjunct2, THEN conjunct1] r by blast
  show ?thesis using o r a by (intro conjI)
qed


end
